theory Spec2Isabelle
  imports Main "HOL-Library.Word"
begin

section \<open>Data model of sboxgates.c\<close>

text \<open>
  A truth table is the 256-bit vector \<^verbatim>\<open>__m256i\<close>. The \<^verbatim>\<open>uint64_t\<close> gate numbers and
  counters are natural numbers; the two places where the C code does arithmetic on them
  (\<^verbatim>\<open>num_gates += 1\<close>, \<^verbatim>\<open>num_gates - 1\<close>) wrap modulo \<open>2 ^ 64\<close> as written in
  \<open>u64_add\<close> and \<open>u64_sub\<close>. The array \<^verbatim>\<open>gates[MAX_GATES]\<close> is a list; a state of the
  program has \<open>length (gates st) = MAX_GATES\<close>.
\<close>

definition MAX_GATES :: nat where
  "MAX_GATES = 500"

definition NO_GATE :: nat where
  "NO_GATE = 2 ^ 64 - 1"

definition u64_add :: "nat \<Rightarrow> nat \<Rightarrow> nat" where
  "u64_add a b = (a + b) mod 2 ^ 64"

definition u64_sub :: "nat \<Rightarrow> nat \<Rightarrow> nat" where
  "u64_sub a b = (a + 2 ^ 64 - b mod 2 ^ 64) mod 2 ^ 64"

datatype gate_type = IN | NOT | AND | OR | XOR

type_synonym ttable = "256 word"

record gate =
  type :: gate_type
  table :: ttable
  in1 :: nat
  in2 :: nat

record state =
  max_gates :: nat
  num_gates :: nat
  outputs :: "nat list"
  gates :: "gate list"

text \<open>
  A failed \<^verbatim>\<open>assert\<close> aborts the program, and a read of a local variable that was never
  assigned has no defined value: both end the run and are results of their own.
\<close>

datatype error = AssertionFailed | UninitialisedRead

subsection \<open>Truth-table primitives\<close>

text \<open>\<^verbatim>\<open>_mm256_testz_si256(a, b)\<close> is 1 exactly when \<open>a AND b\<close> has no bit set.\<close>

definition testz :: "ttable \<Rightarrow> ttable \<Rightarrow> bool" where
  "testz a b = (and a b = 0)"

definition ttable_equals :: "ttable \<Rightarrow> ttable \<Rightarrow> bool" where
  "ttable_equals a b = (let res = xor a b in testz res res)"

definition ttable_equals_mask :: "ttable \<Rightarrow> ttable \<Rightarrow> ttable \<Rightarrow> bool" where
  "ttable_equals_mask a b msk = (let res = and (xor a b) msk in testz res res)"

subsection \<open>Adding gates\<close>

text \<open>
  \<^verbatim>\<open>add_gate\<close> (lines 99-116). The state is passed in and returned; the second component
  of the result is the state after the call.
\<close>

definition add_gate :: "state \<Rightarrow> gate_type \<Rightarrow> ttable \<Rightarrow> nat \<Rightarrow> nat \<Rightarrow> error + nat \<times> state" where
  "add_gate st ty tbl gid1 gid2 =
     (if gid1 = NO_GATE \<or> (gid2 = NO_GATE \<and> ty \<noteq> NOT) then Inr (NO_GATE, st)
      else if \<not> ty \<noteq> IN then Inl AssertionFailed
      else if \<not> gid1 < num_gates st then Inl AssertionFailed
      else if \<not> (gid2 < num_gates st \<or> ty = NOT) then Inl AssertionFailed
      else if num_gates st \<ge> max_gates st then Inr (NO_GATE, st)
      else
        (let st' = st\<lparr>gates := (gates st)[num_gates st :=
                        \<lparr>type = ty, table = tbl, in1 = gid1, in2 = gid2\<rparr>],
                      num_gates := u64_add (num_gates st) 1\<rparr>
         in Inr (u64_sub (num_gates st') 1, st')))"

text \<open>
  The composers (lines 120-190). Each reads the tables of its operands in the state it is
  called on. When an inner call has returned \<open>NO_GATE\<close>, the C code reads
  \<^verbatim>\<open>st->gates[NO_GATE].table\<close> outside the array and \<^verbatim>\<open>add_gate\<close> returns before using the
  value; the model's \<open>gates st ! NO_GATE\<close> is equally unused.
\<close>

definition add_not_gate :: "state \<Rightarrow> nat \<Rightarrow> error + nat \<times> state" where
  "add_not_gate st gid = add_gate st NOT (not (table (gates st ! gid))) gid NO_GATE"

definition add_and_gate :: "state \<Rightarrow> nat \<Rightarrow> nat \<Rightarrow> error + nat \<times> state" where
  "add_and_gate st gid1 gid2 =
     add_gate st AND (and (table (gates st ! gid1)) (table (gates st ! gid2))) gid1 gid2"

definition add_or_gate :: "state \<Rightarrow> nat \<Rightarrow> nat \<Rightarrow> error + nat \<times> state" where
  "add_or_gate st gid1 gid2 =
     add_gate st OR (or (table (gates st ! gid1)) (table (gates st ! gid2))) gid1 gid2"

definition add_xor_gate :: "state \<Rightarrow> nat \<Rightarrow> nat \<Rightarrow> error + nat \<times> state" where
  "add_xor_gate st gid1 gid2 =
     add_gate st XOR (xor (table (gates st ! gid1)) (table (gates st ! gid2))) gid1 gid2"

definition add_nand_gate :: "state \<Rightarrow> nat \<Rightarrow> nat \<Rightarrow> error + nat \<times> state" where
  "add_nand_gate st gid1 gid2 =
     (case add_and_gate st gid1 gid2 of Inl e \<Rightarrow> Inl e | Inr (g, st1) \<Rightarrow> add_not_gate st1 g)"

definition add_nor_gate :: "state \<Rightarrow> nat \<Rightarrow> nat \<Rightarrow> error + nat \<times> state" where
  "add_nor_gate st gid1 gid2 =
     (case add_or_gate st gid1 gid2 of Inl e \<Rightarrow> Inl e | Inr (g, st1) \<Rightarrow> add_not_gate st1 g)"

definition add_xnor_gate :: "state \<Rightarrow> nat \<Rightarrow> nat \<Rightarrow> error + nat \<times> state" where
  "add_xnor_gate st gid1 gid2 =
     (case add_xor_gate st gid1 gid2 of Inl e \<Rightarrow> Inl e | Inr (g, st1) \<Rightarrow> add_not_gate st1 g)"

definition add_or_not_gate :: "state \<Rightarrow> nat \<Rightarrow> nat \<Rightarrow> error + nat \<times> state" where
  "add_or_not_gate st gid1 gid2 =
     (case add_not_gate st gid1 of Inl e \<Rightarrow> Inl e | Inr (g, st1) \<Rightarrow> add_or_gate st1 g gid2)"

definition add_and_not_gate :: "state \<Rightarrow> nat \<Rightarrow> nat \<Rightarrow> error + nat \<times> state" where
  "add_and_not_gate st gid1 gid2 =
     (case add_not_gate st gid1 of Inl e \<Rightarrow> Inl e | Inr (g, st1) \<Rightarrow> add_and_gate st1 g gid2)"

definition add_or_3_gate :: "state \<Rightarrow> nat \<Rightarrow> nat \<Rightarrow> nat \<Rightarrow> error + nat \<times> state" where
  "add_or_3_gate st gid1 gid2 gid3 =
     (case add_or_gate st gid1 gid2 of Inl e \<Rightarrow> Inl e | Inr (g, st1) \<Rightarrow> add_or_gate st1 g gid3)"

definition add_and_3_gate :: "state \<Rightarrow> nat \<Rightarrow> nat \<Rightarrow> nat \<Rightarrow> error + nat \<times> state" where
  "add_and_3_gate st gid1 gid2 gid3 =
     (case add_and_gate st gid1 gid2 of Inl e \<Rightarrow> Inl e | Inr (g, st1) \<Rightarrow> add_and_gate st1 g gid3)"

definition add_xor_3_gate :: "state \<Rightarrow> nat \<Rightarrow> nat \<Rightarrow> nat \<Rightarrow> error + nat \<times> state" where
  "add_xor_3_gate st gid1 gid2 gid3 =
     (case add_xor_gate st gid1 gid2 of Inl e \<Rightarrow> Inl e | Inr (g, st1) \<Rightarrow> add_xor_gate st1 g gid3)"

definition add_and_or_gate :: "state \<Rightarrow> nat \<Rightarrow> nat \<Rightarrow> nat \<Rightarrow> error + nat \<times> state" where
  "add_and_or_gate st gid1 gid2 gid3 =
     (case add_and_gate st gid1 gid2 of Inl e \<Rightarrow> Inl e | Inr (g, st1) \<Rightarrow> add_or_gate st1 g gid3)"

definition add_and_xor_gate :: "state \<Rightarrow> nat \<Rightarrow> nat \<Rightarrow> nat \<Rightarrow> error + nat \<times> state" where
  "add_and_xor_gate st gid1 gid2 gid3 =
     (case add_and_gate st gid1 gid2 of Inl e \<Rightarrow> Inl e | Inr (g, st1) \<Rightarrow> add_xor_gate st1 g gid3)"

definition add_xor_or_gate :: "state \<Rightarrow> nat \<Rightarrow> nat \<Rightarrow> nat \<Rightarrow> error + nat \<times> state" where
  "add_xor_or_gate st gid1 gid2 gid3 =
     (case add_xor_gate st gid1 gid2 of Inl e \<Rightarrow> Inl e | Inr (g, st1) \<Rightarrow> add_or_gate st1 g gid3)"

definition add_xor_and_gate :: "state \<Rightarrow> nat \<Rightarrow> nat \<Rightarrow> nat \<Rightarrow> error + nat \<times> state" where
  "add_xor_and_gate st gid1 gid2 gid3 =
     (case add_xor_gate st gid1 gid2 of Inl e \<Rightarrow> Inl e | Inr (g, st1) \<Rightarrow> add_and_gate st1 g gid3)"

definition add_or_and_gate :: "state \<Rightarrow> nat \<Rightarrow> nat \<Rightarrow> nat \<Rightarrow> error + nat \<times> state" where
  "add_or_and_gate st gid1 gid2 gid3 =
     (case add_or_gate st gid1 gid2 of Inl e \<Rightarrow> Inl e | Inr (g, st1) \<Rightarrow> add_and_gate st1 g gid3)"

definition add_or_xor_gate :: "state \<Rightarrow> nat \<Rightarrow> nat \<Rightarrow> nat \<Rightarrow> error + nat \<times> state" where
  "add_or_xor_gate st gid1 gid2 gid3 =
     (case add_or_gate st gid1 gid2 of Inl e \<Rightarrow> Inl e | Inr (g, st1) \<Rightarrow> add_xor_gate st1 g gid3)"

section \<open>The synthesizer \<^verbatim>\<open>create_circuit\<close>\<close>

subsection \<open>Searching the existing gates (lines 201-348)\<close>

text \<open>
  A \<^verbatim>\<open>for\<close> loop that returns from its body at the first hit: \<open>first_match f xs\<close> is the
  result of the first index of \<open>xs\<close> whose body returns, \<open>None\<close> when the loop runs out.
\<close>

fun first_match :: "('a \<Rightarrow> 'b option) \<Rightarrow> 'a list \<Rightarrow> 'b option" where
  "first_match f [] = None"
| "first_match f (x # xs) = (case f x of Some r \<Rightarrow> Some r | None \<Rightarrow> first_match f xs)"

text \<open>Step 1 (lines 201-205): an existing gate with the wanted map.\<close>

definition find_gate :: "state \<Rightarrow> ttable \<Rightarrow> ttable \<Rightarrow> nat option" where
  "find_gate st target msk =
     first_match (\<lambda>i. if ttable_equals_mask target (table (gates st ! i)) msk then Some i else None)
       [0..<num_gates st]"

text \<open>Step 2 (lines 210-214): an existing gate whose inverse is the wanted map.\<close>

definition find_inverse_gate :: "state \<Rightarrow> ttable \<Rightarrow> ttable \<Rightarrow> (error + nat \<times> state) option" where
  "find_inverse_gate st target msk =
     first_match (\<lambda>i. if ttable_equals_mask target (not (table (gates st ! i))) msk
                      then Some (add_not_gate st i) else None)
       [0..<num_gates st]"

text \<open>Step 3 (lines 219-234): a pair of gates joined by one gate.\<close>

definition pair_gate :: "state \<Rightarrow> ttable \<Rightarrow> ttable \<Rightarrow> nat \<Rightarrow> nat \<Rightarrow> (error + nat \<times> state) option" where
  "pair_gate st mtarget msk i k =
     (let ti = and (table (gates st ! i)) msk;
          tk = and (table (gates st ! k)) msk
      in if ttable_equals mtarget (or ti tk) then Some (add_or_gate st i k)
         else if ttable_equals mtarget (and ti tk) then Some (add_and_gate st i k)
         else if ttable_equals mtarget (xor ti tk) then Some (add_xor_gate st i k)
         else None)"

definition search_pairs :: "state \<Rightarrow> ttable \<Rightarrow> ttable \<Rightarrow> (error + nat \<times> state) option" where
  "search_pairs st target msk =
     (let mtarget = and target msk
      in first_match (\<lambda>i. first_match (\<lambda>k. pair_gate st mtarget msk i k) [i + 1..<num_gates st])
           [0..<num_gates st])"

text \<open>Step 4, first part (lines 240-266): a pair of gates joined by two gates, one a NOT.\<close>

definition pair_not_gate :: "state \<Rightarrow> ttable \<Rightarrow> ttable \<Rightarrow> nat \<Rightarrow> nat \<Rightarrow> (error + nat \<times> state) option" where
  "pair_not_gate st target msk i k =
     (let ti = table (gates st ! i);
          tk = table (gates st ! k)
      in if ttable_equals_mask target (not (or ti tk)) msk then Some (add_nor_gate st i k)
         else if ttable_equals_mask target (not (and ti tk)) msk then Some (add_nand_gate st i k)
         else if ttable_equals_mask target (not (xor ti tk)) msk then Some (add_xnor_gate st i k)
         else if ttable_equals_mask target (or (not ti) tk) msk then Some (add_or_not_gate st i k)
         else if ttable_equals_mask target (or (not tk) ti) msk then Some (add_or_not_gate st k i)
         else if ttable_equals_mask target (and (not ti) tk) msk then Some (add_and_not_gate st i k)
         else if ttable_equals_mask target (and (not tk) ti) msk then Some (add_and_not_gate st k i)
         else None)"

definition search_pairs_not :: "state \<Rightarrow> ttable \<Rightarrow> ttable \<Rightarrow> (error + nat \<times> state) option" where
  "search_pairs_not st target msk =
     first_match (\<lambda>i. first_match (\<lambda>k. pair_not_gate st target msk i k) [i + 1..<num_gates st])
       [0..<num_gates st]"

text \<open>
  Step 4, second part (lines 268-348): three gates joined by two gates. The chain of
  \<^verbatim>\<open>if\<close> statements of one triple (lines 277-345) is the list \<open>triple_tests\<close>, in the
  order of the source: each entry is the table compared with \<^verbatim>\<open>mtarget\<close> and the composer
  called on a hit, with its operands.
\<close>

datatype chain = And3 | AndOr | AndXor | Or3 | OrAnd | OrXor | Xor3 | XorOr | XorAnd

fun add_chain :: "state \<Rightarrow> chain \<Rightarrow> nat \<Rightarrow> nat \<Rightarrow> nat \<Rightarrow> error + nat \<times> state" where
  "add_chain st And3 a b c = add_and_3_gate st a b c"
| "add_chain st AndOr a b c = add_and_or_gate st a b c"
| "add_chain st AndXor a b c = add_and_xor_gate st a b c"
| "add_chain st Or3 a b c = add_or_3_gate st a b c"
| "add_chain st OrAnd a b c = add_or_and_gate st a b c"
| "add_chain st OrXor a b c = add_or_xor_gate st a b c"
| "add_chain st Xor3 a b c = add_xor_3_gate st a b c"
| "add_chain st XorOr a b c = add_xor_or_gate st a b c"
| "add_chain st XorAnd a b c = add_xor_and_gate st a b c"

definition triple_tests ::
  "ttable \<Rightarrow> ttable \<Rightarrow> ttable \<Rightarrow> nat \<Rightarrow> nat \<Rightarrow> nat \<Rightarrow> (ttable \<times> chain \<times> nat \<times> nat \<times> nat) list" where
  "triple_tests ti tk tm i k m =
     (let iandk = and ti tk; iork = or ti tk; ixork = xor ti tk;
          iandm = and ti tm; kandm = and tk tm;
          ixorm = xor ti tm; kxorm = xor tk tm;
          iorm = or ti tm; korm = or tk tm
      in [(and iandk tm, And3, i, k, m),
          (or iandk tm, AndOr, i, k, m),
          (xor iandk tm, AndXor, i, k, m),
          (or iork tm, Or3, i, k, m),
          (and iork tm, OrAnd, i, k, m),
          (xor iork tm, OrXor, i, k, m),
          (xor ixork tm, Xor3, i, k, m),
          (or ixork tm, XorOr, i, k, m),
          (and ixork tm, XorAnd, i, k, m),
          (or iandm tk, AndOr, i, m, k),
          (xor iandm tk, AndXor, i, m, k),
          (or kandm ti, AndOr, k, m, i),
          (xor kandm ti, AndXor, k, m, i),
          (or ixorm tk, XorOr, i, m, k),
          (and ixorm tk, XorAnd, i, m, k),
          (or kxorm ti, XorOr, k, m, i),
          (and kxorm ti, XorAnd, k, m, i),
          (and iorm tk, OrAnd, i, m, k),
          (xor iorm tk, OrXor, i, m, k),
          (and korm ti, OrAnd, k, m, i),
          (xor korm ti, OrXor, k, m, i)])"

definition triple_gate :: "state \<Rightarrow> ttable \<Rightarrow> ttable \<Rightarrow> nat \<Rightarrow> nat \<Rightarrow> nat \<Rightarrow> (error + nat \<times> state) option" where
  "triple_gate st mtarget msk i k m =
     (let ti = and (table (gates st ! i)) msk;
          tk = and (table (gates st ! k)) msk;
          tm = and (table (gates st ! m)) msk
      in first_match (\<lambda>(t, c, g1, g2, g3).
                        if ttable_equals mtarget t then Some (add_chain st c g1 g2 g3) else None)
           (triple_tests ti tk tm i k m))"

definition search_triples :: "state \<Rightarrow> ttable \<Rightarrow> ttable \<Rightarrow> (error + nat \<times> state) option" where
  "search_triples st target msk =
     (let mtarget = and target msk
      in first_match (\<lambda>i.
           first_match (\<lambda>k.
             first_match (\<lambda>m. triple_gate st mtarget msk i k m) [k + 1..<num_gates st])
             [i + 1..<num_gates st])
           [0..<num_gates st])"

subsection \<open>Splitting on an input bit (lines 353-427)\<close>

text \<open>
  The \<^verbatim>\<open>while\<close> loop of lines 356-359 counts the input bits already used, copying them
  to \<^verbatim>\<open>next_inbits\<close>. The C arrays have eight entries, so an index below 6 is always inside
  them; a shorter list ends the loop.
\<close>

function copy_inbits :: "int list \<Rightarrow> nat \<Rightarrow> nat" where
  "copy_inbits inbits bitp =
     (if bitp < 6 \<and> bitp < length inbits \<and> inbits ! bitp \<noteq> - 1
      then copy_inbits inbits (bitp + 1) else bitp)"
  by pat_completeness auto
termination
  by (relation "measure (\<lambda>(inbits, bitp). 6 - bitp)") auto

declare copy_inbits.simps [simp del]

text \<open>
  \<^verbatim>\<open>state best; best.num_gates = 0;\<close> (lines 364-365): only \<^verbatim>\<open>num_gates\<close> is assigned. The
  other fields are not read before \<^verbatim>\<open>best\<close> is overwritten by a candidate.
\<close>

definition best_init :: state where
  "best_init = \<lparr>max_gates = 0, num_gates = 0, outputs = [], gates = []\<rparr>"

lemma copy_inbits_takeWhile:
  "bitp \<le> 6 \<Longrightarrow>
   copy_inbits inbits bitp =
     bitp + length (takeWhile (\<lambda>x. x \<noteq> - 1) (take (6 - bitp) (drop bitp inbits)))"
proof (induction inbits bitp rule: copy_inbits.induct)
  case (1 inbits bitp)
  show ?case
  proof (cases "bitp < 6 \<and> bitp < length inbits \<and> inbits ! bitp \<noteq> - 1")
    case True
    then have d: "drop bitp inbits = inbits ! bitp # drop (Suc bitp) inbits"
      by (simp add: Cons_nth_drop_Suc)
    from True obtain n where n: "6 - bitp = Suc n" "6 - (bitp + 1) = n"
      by (cases "6 - bitp") auto
    from True have "copy_inbits inbits bitp = copy_inbits inbits (bitp + 1)"
      by (subst copy_inbits.simps) simp
    also have "\<dots> = bitp + 1 + length (takeWhile (\<lambda>x. x \<noteq> - 1) (take (6 - (bitp + 1)) (drop (bitp + 1) inbits)))"
      using True by (intro "1.IH") auto
    finally show ?thesis
      using True d n by simp
  next
    case False
    then have c: "copy_inbits inbits bitp = bitp"
      by (subst copy_inbits.simps) auto
    from False "1.prems" consider "bitp = 6" | "length inbits \<le> bitp" | "bitp < length inbits" "inbits ! bitp = - 1"
      by fastforce
    then show ?thesis
    proof cases
      case 1 then show ?thesis using c by simp
    next
      case 2 then show ?thesis using c by simp
    next
      case 3
      then have "drop bitp inbits = - 1 # drop (Suc bitp) inbits"
        by (metis Cons_nth_drop_Suc)
      then show ?thesis using c by (cases "6 - bitp") auto
    qed
  qed
qed

definition used_bits :: "int list \<Rightarrow> nat" where
  "used_bits inbits = copy_inbits inbits 0"

lemma used_bits_takeWhile:
  "used_bits inbits = length (takeWhile (\<lambda>x. x \<noteq> - 1) (take 6 inbits))"
  using copy_inbits_takeWhile [of 0 inbits] by (simp add: used_bits_def)

lemma used_bits_le: "used_bits inbits \<le> 6"
proof -
  have "length (takeWhile (\<lambda>x. x \<noteq> - 1) (take 6 inbits)) \<le> length (take 6 inbits)"
    by (rule length_takeWhile_le)
  then show ?thesis by (simp add: used_bits_takeWhile)
qed

lemma used_bits_next_any:
  "x \<noteq> - 1 \<Longrightarrow> y \<noteq> - 1 \<Longrightarrow> used_bits (xs @ [x, - 1]) = used_bits (xs @ [y, - 1])"
  by (cases "6 - length xs"; cases "6 - length xs - 1")
     (auto simp: used_bits_takeWhile takeWhile_append)

lemma used_bits_next:
  assumes "used_bits inbits < 6" "x \<noteq> - 1"
  shows "used_bits (take (used_bits inbits) inbits @ [x, - 1]) = used_bits inbits + 1"
proof -
  let ?P = "\<lambda>x::int. x \<noteq> - 1"
  let ?c = "used_bits inbits"
  have c: "?c = length (takeWhile ?P (take 6 inbits))"
    by (rule used_bits_takeWhile)
  have "takeWhile ?P (take 6 inbits) = take ?c (take 6 inbits)"
    unfolding c by (rule takeWhile_eq_take)
  also have "\<dots> = take ?c inbits"
    using assms(1) by (simp add: min_def)
  finally have tw: "takeWhile ?P (take 6 inbits) = take ?c inbits" .
  then have all: "\<forall>a\<in>set (take ?c inbits). ?P a"
    by (metis set_takeWhileD)
  have len: "length (take ?c inbits) = ?c"
    using tw c by metis
  obtain n where n: "6 - ?c = Suc n"
    using assms(1) by (cases "6 - ?c") auto
  show ?thesis
    using all len n assms(2)
    by (cases n) (simp_all add: used_bits_takeWhile [of "_ @ _"] takeWhile_append)
qed

function create_circuit :: "state \<Rightarrow> ttable \<Rightarrow> ttable \<Rightarrow> int list \<Rightarrow> error + nat \<times> state"
  and split_loop :: "state \<Rightarrow> ttable \<Rightarrow> ttable \<Rightarrow> int list \<Rightarrow> nat \<Rightarrow> nat \<Rightarrow> state \<Rightarrow> error + state"
  and split_bit :: "state \<Rightarrow> ttable \<Rightarrow> ttable \<Rightarrow> int list \<Rightarrow> nat \<Rightarrow> error + state option"
  and mux_and :: "state \<Rightarrow> ttable \<Rightarrow> ttable \<Rightarrow> int list \<Rightarrow> nat \<Rightarrow> error + nat \<times> state"
  and mux_or :: "state \<Rightarrow> ttable \<Rightarrow> ttable \<Rightarrow> int list \<Rightarrow> nat \<Rightarrow> error + nat option \<times> state"
where
  "create_circuit st target msk inbits =
     (case find_gate st target msk of Some i \<Rightarrow> Inr (i, st) | None \<Rightarrow>
     (case find_inverse_gate st target msk of Some r \<Rightarrow> r | None \<Rightarrow>
     (case search_pairs st target msk of Some r \<Rightarrow> r | None \<Rightarrow>
     (case search_pairs_not st target msk of Some r \<Rightarrow> r | None \<Rightarrow>
     (case search_triples st target msk of Some r \<Rightarrow> r | None \<Rightarrow>
        (let bitp = copy_inbits inbits 0
         in if \<not> bitp < 6 then Inl AssertionFailed
            else (case split_loop st target msk inbits bitp 0 best_init of
                    Inl e \<Rightarrow> Inl e
                  | Inr best \<Rightarrow>
                      if num_gates best = 0 then Inr (NO_GATE, st)
                      else Inr (u64_sub (num_gates best) 1, best))))))))"
| "split_loop st target msk inbits bitp bitn best =
     (if \<not> bitn < 8 then Inr best
      else if int bitn \<in> set (take bitp inbits)
      then split_loop st target msk inbits bitp (bitn + 1) best
      else (case split_bit st target msk (take bitp inbits @ [int bitn, - 1]) bitn of
              Inl e \<Rightarrow> Inl e
            | Inr None \<Rightarrow> split_loop st target msk inbits bitp (bitn + 1) best
            | Inr (Some nst) \<Rightarrow>
                split_loop st target msk inbits bitp (bitn + 1)
                  (if num_gates best = 0 \<or> num_gates nst < num_gates best then nst else best)))"
| "split_bit st target msk next_inbits bitn =
     (case mux_and st target msk next_inbits bitn of
        Inl e \<Rightarrow> Inl e
      | Inr (mux_out_and, nst_and) \<Rightarrow>
     (case mux_or st target msk next_inbits bitn of
        Inl e \<Rightarrow> Inl e
      | Inr (None, nst_or) \<Rightarrow> Inl UninitialisedRead
      | Inr (Some mux_out_or, nst_or) \<Rightarrow>
          if mux_out_and = NO_GATE \<and> mux_out_or = NO_GATE then Inr None
          else
            (let (nst, mux_out) =
                   (if mux_out_or = NO_GATE
                       \<or> (mux_out_and \<noteq> NO_GATE \<and> num_gates nst_and < num_gates nst_or)
                    then (nst_and, mux_out_and) else (nst_or, mux_out_or))
             in if \<not> ttable_equals_mask target (table (gates nst ! mux_out)) msk
                then Inl AssertionFailed
                else Inr (Some nst))))"
| "mux_and st target msk next_inbits bitn =
     (let fsel = table (gates st ! bitn)
      in (case create_circuit st (and target (not fsel)) (and msk (not fsel)) next_inbits of
           Inl e \<Rightarrow> Inl e
         | Inr (fb, nst_and) \<Rightarrow>
             if fb \<noteq> NO_GATE then
               (case create_circuit nst_and (xor (table (gates nst_and ! fb)) target)
                       (and msk fsel) next_inbits of
                  Inl e \<Rightarrow> Inl e
                | Inr (fc, nst_and1) \<Rightarrow>
                    (case add_and_gate nst_and1 fc bitn of
                       Inl e \<Rightarrow> Inl e
                     | Inr (andg, nst_and2) \<Rightarrow> add_xor_gate nst_and2 fb andg))
             else Inr (NO_GATE, nst_and)))"
| "mux_or st target msk next_inbits bitn =
     (let fsel = table (gates st ! bitn)
      in (case create_circuit st (and (not target) fsel) (and msk fsel) next_inbits of
           Inl e \<Rightarrow> Inl e
         | Inr (fd, nst_or) \<Rightarrow>
             if fd \<noteq> NO_GATE then
               (case create_circuit nst_or (xor (table (gates nst_or ! fd)) target)
                       (and msk (not fsel)) next_inbits of
                  Inl e \<Rightarrow> Inl e
                | Inr (fe, nst_or1) \<Rightarrow>
                    (case add_or_gate nst_or1 fe bitn of
                       Inl e \<Rightarrow> Inl e
                     | Inr (org, nst_or2) \<Rightarrow>
                         (case add_xor_gate nst_or2 fd org of
                            Inl e \<Rightarrow> Inl e
                          | Inr (mux_out_or, nst_or3) \<Rightarrow> Inr (Some mux_out_or, nst_or3))))
             else Inr (None, nst_or)))"
  by pat_completeness auto

termination
proof (relation "measure (\<lambda>x. case x of
          Inl (Inl (st, target, msk, inbits)) \<Rightarrow> 20 * (6 - used_bits inbits)
        | Inl (Inr (st, target, msk, inbits, bitp, bitn, best)) \<Rightarrow>
            20 * (6 - used_bits (take bitp inbits @ [0, - 1])) + 3 + (8 - bitn)
        | Inr (Inl (st, target, msk, next_inbits, bitn)) \<Rightarrow> 20 * (6 - used_bits next_inbits) + 2
        | Inr (Inr (Inl (st, target, msk, next_inbits, bitn))) \<Rightarrow> 20 * (6 - used_bits next_inbits) + 1
        | Inr (Inr (Inr (st, target, msk, next_inbits, bitn))) \<Rightarrow> 20 * (6 - used_bits next_inbits) + 1)",
       goal_cases)
  case 1
  show ?case by simp
next
  case (2 st target msk inbits x)
  then have "used_bits inbits < 6" by (simp add: used_bits_def)
  from used_bits_next [OF this, of 0] 2 show ?case
    by (simp add: used_bits_def)
next
  case (3 st target msk inbits bitp bitn best)
  then show ?case by simp
next
  case (4 st target msk inbits bitp bitn best)
  have "used_bits (take bitp inbits @ [int bitn, - 1]) = used_bits (take bitp inbits @ [0, - 1])"
    by (rule used_bits_next_any) simp_all
  then show ?case by simp
next
  case (5 st target msk inbits bitp bitn best)
  then show ?case by simp
next
  case (6 st target msk inbits bitp bitn best)
  then show ?case by simp
qed simp_all

declare create_circuit.simps [simp del]
declare split_loop.simps [simp del]
declare split_bit.simps [simp del]
declare mux_and.simps [simp del]
declare mux_or.simps [simp del]


section \<open>Targets and the driver\<close>

subsection \<open>\<^verbatim>\<open>generate_target\<close> (lines 432-448)\<close>

definition g_sbox_enc :: "nat list" where
  "g_sbox_enc =
     [0x9c, 0xf2, 0x14, 0xc1, 0x8e, 0xcb, 0xb2, 0x65, 0x97, 0x7a, 0x60, 0x17, 0x92, 0xf9, 0x78, 0x41,
      0x07, 0x4c, 0x67, 0x6d, 0x66, 0x4a, 0x30, 0x7d, 0x53, 0x9d, 0xb5, 0xbc, 0xc3, 0xca, 0xf1, 0x04,
      0x03, 0xec, 0xd0, 0x38, 0xb0, 0xed, 0xad, 0xc4, 0xdd, 0x56, 0x42, 0xbd, 0xa0, 0xde, 0x1b, 0x81,
      0x55, 0x44, 0x5a, 0xe4, 0x50, 0xdc, 0x43, 0x63, 0x09, 0x5c, 0x74, 0xcf, 0x0e, 0xab, 0x1d, 0x3d,
      0x6b, 0x02, 0x5d, 0x28, 0xe7, 0xc6, 0xee, 0xb4, 0xd9, 0x7c, 0x19, 0x3e, 0x5e, 0x6c, 0xd6, 0x6e,
      0x2a, 0x13, 0xa5, 0x08, 0xb9, 0x2d, 0xbb, 0xa2, 0xd4, 0x96, 0x39, 0xe0, 0xba, 0xd7, 0x82, 0x33,
      0x0d, 0x5f, 0x26, 0x16, 0xfe, 0x22, 0xaf, 0x00, 0x11, 0xc8, 0x9e, 0x88, 0x8b, 0xa1, 0x7b, 0x87,
      0x27, 0xe6, 0xc7, 0x94, 0xd1, 0x5b, 0x9b, 0xf0, 0x9f, 0xdb, 0xe1, 0x8d, 0xd2, 0x1f, 0x6a, 0x90,
      0xf4, 0x18, 0x91, 0x59, 0x01, 0xb1, 0xfc, 0x34, 0x3c, 0x37, 0x47, 0x29, 0xe2, 0x64, 0x69, 0x24,
      0x0a, 0x2f, 0x73, 0x71, 0xa9, 0x84, 0x8c, 0xa8, 0xa3, 0x3b, 0xe3, 0xe9, 0x58, 0x80, 0xa7, 0xd3,
      0xb7, 0xc2, 0x1c, 0x95, 0x1e, 0x4d, 0x4f, 0x4e, 0xfb, 0x76, 0xfd, 0x99, 0xc5, 0xc9, 0xe8, 0x2e,
      0x8a, 0xdf, 0xf5, 0x49, 0xf3, 0x6f, 0x8f, 0xe5, 0xeb, 0xf6, 0x25, 0xd5, 0x31, 0xc0, 0x57, 0x72,
      0xaa, 0x46, 0x68, 0x0b, 0x93, 0x89, 0x83, 0x70, 0xef, 0xa4, 0x85, 0xf8, 0x0f, 0xb3, 0xac, 0x10,
      0x62, 0xcc, 0x61, 0x40, 0xf7, 0xfa, 0x52, 0x7f, 0xff, 0x32, 0x45, 0x20, 0x79, 0xce, 0xea, 0xbe,
      0xcd, 0x15, 0x21, 0x23, 0xd8, 0xb6, 0x0c, 0x3f, 0x54, 0x1a, 0xbf, 0x98, 0x48, 0x3a, 0x75, 0x77,
      0x2b, 0xae, 0x36, 0xda, 0x7e, 0x86, 0x35, 0x51, 0x05, 0x12, 0xb8, 0xa6, 0x9a, 0x2c, 0x06, 0x4b]"

text \<open>
  The loop body (lines 437-445) works on the four 64-bit lanes \<^verbatim>\<open>vec\<close> and the lane
  pointer \<^verbatim>\<open>var\<close>, here the index of the lane.
\<close>

definition target_step :: "nat \<Rightarrow> bool \<Rightarrow> 64 word list \<times> nat \<Rightarrow> nat \<Rightarrow> 64 word list \<times> nat" where
  "target_step bitn sbox s i =
     (let (vec, var) = s;
          var = (if i = 64 then 1 else if i = 128 then 2 else if i = 192 then 3 else var);
          v = drop_bit 1 (vec ! var);
          v = or v (push_bit 63 (of_nat (and (drop_bit bitn (if sbox then g_sbox_enc ! i else i)) 1)))
      in (vec[var := v], var))"

function target_loop :: "nat \<Rightarrow> bool \<Rightarrow> nat \<Rightarrow> 64 word list \<times> nat \<Rightarrow> 64 word list \<times> nat" where
  "target_loop bitn sbox i s =
     (if i < 256 then target_loop bitn sbox (i + 1) (target_step bitn sbox s i) else s)"
  by pat_completeness auto
termination
  by (relation "measure (\<lambda>(bitn, sbox, i, s). 256 - i)") auto

declare target_loop.simps [simp del]

text \<open>\<^verbatim>\<open>_mm256_loadu_si256\<close>: lane 0 holds the low 64 bits of the 256-bit vector.\<close>

definition loadu :: "64 word list \<Rightarrow> ttable" where
  "loadu vec = or (ucast (vec ! 0)) (or (push_bit 64 (ucast (vec ! 1)))
                 (or (push_bit 128 (ucast (vec ! 2))) (push_bit 192 (ucast (vec ! 3)))))"

text \<open>Lines 434-447, the table built once \<^verbatim>\<open>assert(bit < 8)\<close> has passed.\<close>

definition target_table :: "nat \<Rightarrow> bool \<Rightarrow> ttable" where
  "target_table bitn sbox = loadu (fst (target_loop bitn sbox 0 ([0, 0, 0, 0], 0)))"

definition generate_target :: "nat \<Rightarrow> bool \<Rightarrow> error + ttable" where
  "generate_target bitn sbox =
     (if \<not> bitn < 8 then Inl AssertionFailed else Inr (target_table bitn sbox))"

subsection \<open>\<^verbatim>\<open>main\<close> (lines 520-603)\<close>

text \<open>Lines 521-523: the global \<^verbatim>\<open>g_target\<close>, one table for each output bit of the S-box.\<close>

fun fill_targets :: "nat list \<Rightarrow> error + ttable list" where
  "fill_targets [] = Inr []"
| "fill_targets (i # rest) =
     (case generate_target i True of
        Inl e \<Rightarrow> Inl e
      | Inr t \<Rightarrow> (case fill_targets rest of Inl e \<Rightarrow> Inl e | Inr ts \<Rightarrow> Inr (t # ts)))"

definition g_target :: "error + ttable list" where
  "g_target = fill_targets [0..<8]"

text \<open>
  Lines 530-539, the run without arguments: \<^verbatim>\<open>memset\<close> fills the gate array with zero bytes
  (\<open>IN\<close> is the first enumerator), then the eight input gates and the eight outputs are
  set. The eight outputs hold no value before the loop assigns them.
\<close>

definition zero_gate :: gate where
  "zero_gate = \<lparr>type = IN, table = 0, in1 = 0, in2 = 0\<rparr>"

fun init_inputs :: "nat list \<Rightarrow> state \<Rightarrow> error + state" where
  "init_inputs [] st = Inr st"
| "init_inputs (i # rest) st =
     (case generate_target i False of
        Inl e \<Rightarrow> Inl e
      | Inr t \<Rightarrow>
          init_inputs rest
            (st\<lparr>gates := (gates st)[i := \<lparr>type = IN, table = t, in1 = NO_GATE, in2 = NO_GATE\<rparr>],
                outputs := (outputs st)[i := NO_GATE]\<rparr>))"

definition new_default_state :: "error + state" where
  "new_default_state =
     init_inputs [0..<8]
       \<lparr>max_gates = MAX_GATES, num_gates = 8, outputs = replicate 8 0,
        gates = replicate MAX_GATES zero_gate\<rparr>"

text \<open>
  The state that these lines build (\<open>new_default_state_eq\<close> below): eight input gates in
  front of 492 zeroed entries.
\<close>

definition input_gate :: "nat \<Rightarrow> gate" where
  "input_gate i = \<lparr>type = IN, table = target_table i False, in1 = NO_GATE, in2 = NO_GATE\<rparr>"

definition initial_state :: state where
  "initial_state =
     \<lparr>max_gates = MAX_GATES, num_gates = 8, outputs = replicate 8 NO_GATE,
      gates = map input_gate [0, 1, 2, 3, 4, 5, 6, 7] @ replicate 492 zero_gate\<rparr>"

text \<open>
  One round of the loop over the outputs (lines 567-603). The result is the state written
  by \<^verbatim>\<open>save_state\<close>, if any, and \<^verbatim>\<open>default_state\<close> after the round.
\<close>

definition full_mask :: ttable where
  "full_mask = - 1"

definition synth_output :: "ttable list \<Rightarrow> state \<Rightarrow> nat \<Rightarrow> error + state option \<times> state" where
  "synth_output targets default_state output =
     (if outputs default_state ! output \<noteq> NO_GATE then Inr (None, default_state)
      else
        (case create_circuit default_state (targets ! output) full_mask (replicate 8 (- 1)) of
           Inl e \<Rightarrow> Inl e
         | Inr (r, st1) \<Rightarrow>
             (let st = st1\<lparr>outputs := (outputs st1)[output := r]\<rparr>
              in if outputs st ! output = NO_GATE then Inr (None, default_state)
                 else if \<not> ttable_equals (targets ! output)
                             (table (gates st ! (outputs st ! output)))
                 then Inl AssertionFailed
                 else Inr (Some st,
                           if max_gates default_state > num_gates st
                           then default_state\<lparr>max_gates := num_gates st\<rparr>
                           else default_state))))"

fun main_loop :: "ttable list \<Rightarrow> nat list \<Rightarrow> state \<Rightarrow> error + state list \<times> state" where
  "main_loop targets [] default_state = Inr ([], default_state)"
| "main_loop targets (output # rest) default_state =
     (case synth_output targets default_state output of
        Inl e \<Rightarrow> Inl e
      | Inr (saved, default_state') \<Rightarrow>
          (case main_loop targets rest default_state' of
             Inl e \<Rightarrow> Inl e
           | Inr (files, final) \<Rightarrow>
               Inr ((case saved of None \<Rightarrow> [] | Some st \<Rightarrow> [st]) @ files, final)))"

text \<open>The run without arguments; a state read from a file enters \<open>main_loop\<close> with
  \<^verbatim>\<open>max_gates\<close> set to \<open>MAX_GATES\<close> (line 557).\<close>

definition main_no_args :: "error + state list \<times> state" where
  "main_no_args =
     (case g_target of
        Inl e \<Rightarrow> Inl e
      | Inr targets \<Rightarrow>
          (case new_default_state of
             Inl e \<Rightarrow> Inl e
           | Inr default_state \<Rightarrow> main_loop targets [0..<8] default_state))"

definition main_loaded :: "state \<Rightarrow> error + state list \<times> state" where
  "main_loaded file_state =
     (case g_target of
        Inl e \<Rightarrow> Inl e
      | Inr targets \<Rightarrow> main_loop targets [0..<8] (file_state\<lparr>max_gates := MAX_GATES\<rparr>))"


section \<open>Properties\<close>

subsection \<open>Basic facts\<close>

lemma upt_8: "[0..<8] = [0, 1, 2, 3, 4, 5, 6, 7::nat]"
  by code_simp

lemma replicate_8: "replicate 8 x = [x, x, x, x, x, x, x, x]"
  by (simp add: numeral_eq_Suc)

lemma replicate_MAX_GATES:
  "replicate MAX_GATES x = [x, x, x, x, x, x, x, x] @ replicate 492 x"
proof -
  have "replicate MAX_GATES x = replicate 8 x @ replicate 492 x"
    by (simp add: MAX_GATES_def replicate_add [symmetric])
  then show ?thesis by (simp only: replicate_8)
qed

lemma new_default_state_eq: "new_default_state = Inr initial_state"
  by (simp add: new_default_state_def initial_state_def generate_target_def input_gate_def
        upt_8 replicate_8 replicate_MAX_GATES)

lemma num_gates_initial [simp]: "num_gates initial_state = 8"
  by (simp add: initial_state_def)

lemma max_gates_initial [simp]: "max_gates initial_state = 500"
  by (simp add: initial_state_def MAX_GATES_def)

lemma NO_GATE_eq: "NO_GATE = 18446744073709551615"
  by (simp add: NO_GATE_def)

lemma u64_add_Suc: "n < 2 ^ 64 - 1 \<Longrightarrow> u64_add n (Suc 0) = Suc n"
  by (simp add: u64_add_def)

lemma u64_sub_Suc: "n < 2 ^ 64 \<Longrightarrow> u64_sub (Suc n) (Suc 0) = n"
proof -
  assume n: "n < 2 ^ 64"
  have "Suc n + 2 ^ 64 - Suc 0 mod 2 ^ 64 = n + 2 ^ 64"
    by simp
  then have "u64_sub (Suc n) (Suc 0) = (n + 2 ^ 64) mod 2 ^ 64"
    unfolding u64_sub_def by (rule arg_cong)
  also have "\<dots> = n"
    using n by simp
  finally show ?thesis .
qed

lemma add_gate_none:
  "gid1 = NO_GATE \<or> (gid2 = NO_GATE \<and> ty \<noteq> NOT) \<Longrightarrow> add_gate st ty tbl gid1 gid2 = Inr (NO_GATE, st)"
  by (simp add: add_gate_def)

subsection \<open>Adding a gate\<close>

text \<open>
  \<^verbatim>\<open>add_gate\<close> first returns \<open>NO_GATE\<close> when a required input is \<open>NO_GATE\<close>, then asserts
  that the kind is not \<open>IN\<close> and that the inputs it needs are existing gates (lines
  104-106). The call aborts exactly when no required input is \<open>NO_GATE\<close> and one of the
  three assertions is broken.
\<close>

lemma add_gate_aborts:
  "add_gate st ty tbl gid1 gid2 = Inl e \<longleftrightarrow>
     e = AssertionFailed \<and> gid1 \<noteq> NO_GATE \<and> (ty = NOT \<or> gid2 \<noteq> NO_GATE) \<and>
     (ty = IN \<or> num_gates st \<le> gid1 \<or> (num_gates st \<le> gid2 \<and> ty \<noteq> NOT))"
  by (cases e) (auto simp: add_gate_def Let_def)

text \<open>
  Claim C7. The states of the program keep \<open>num_gates \<le> max_gates \<le> MAX_GATES\<close> and hold
  an array of \<open>MAX_GATES\<close> gates; the inputs named in a call are \<open>NO_GATE\<close> or indices of
  existing gates, and a gate of kind \<open>IN\<close> has no input. For such a state and call,
  \<^verbatim>\<open>add_gate\<close> returns \<open>NO_GATE\<close>, leaving the state as it was, exactly when a required input
  is \<open>NO_GATE\<close> (the first always, the second unless the kind is \<open>NOT\<close>) or
  \<open>num_gates = max_gates\<close>; otherwise it returns the old \<open>num_gates\<close>, which is not
  \<open>NO_GATE\<close>, stores the gate with the given kind, table and inputs there, leaves every
  other entry as it was and counts one gate more.
\<close>

theorem add_gate_appends:
  assumes inv: "num_gates st \<le> max_gates st" "max_gates st \<le> MAX_GATES"
      "length (gates st) = MAX_GATES"
    and kind: "ty = IN \<longrightarrow> gid1 = NO_GATE"
    and ids: "gid1 = NO_GATE \<or> gid1 < num_gates st" "gid2 = NO_GATE \<or> gid2 < num_gates st"
  shows "if gid1 = NO_GATE \<or> (gid2 = NO_GATE \<and> ty \<noteq> NOT) \<or> num_gates st = max_gates st
         then add_gate st ty tbl gid1 gid2 = Inr (NO_GATE, st)
         else num_gates st \<noteq> NO_GATE \<and>
              (\<exists>st'. add_gate st ty tbl gid1 gid2 = Inr (num_gates st, st') \<and>
                 num_gates st' = num_gates st + 1 \<and>
                 gates st' ! num_gates st = \<lparr>type = ty, table = tbl, in1 = gid1, in2 = gid2\<rparr> \<and>
                 (\<forall>j. j \<noteq> num_gates st \<longrightarrow> gates st' ! j = gates st ! j) \<and>
                 length (gates st') = length (gates st) \<and>
                 max_gates st' = max_gates st \<and> outputs st' = outputs st)"
proof (cases "gid1 = NO_GATE \<or> (gid2 = NO_GATE \<and> ty \<noteq> NOT) \<or> num_gates st = max_gates st")
  case True
  with kind ids show ?thesis by (auto simp: add_gate_def)
next
  case False
  with inv have n: "num_gates st < 500" by (simp add: MAX_GATES_def)
  then have a: "u64_add (num_gates st) (Suc 0) = Suc (num_gates st)"
    and s: "u64_sub (Suc (num_gates st)) (Suc 0) = num_gates st"
    by (simp_all add: u64_add_Suc u64_sub_Suc)
  from n have ng: "num_gates st \<noteq> NO_GATE" by (simp add: NO_GATE_def)
  from n inv have len: "num_gates st < length (gates st)" by (simp add: MAX_GATES_def)
  from False inv(1) have lt: "num_gates st < max_gates st" by simp
  from False kind ids lt have "add_gate st ty tbl gid1 gid2 =
      Inr (num_gates st, st\<lparr>gates := (gates st)[num_gates st :=
                        \<lparr>type = ty, table = tbl, in1 = gid1, in2 = gid2\<rparr>],
                      num_gates := num_gates st + 1\<rparr>)"
    by (auto simp: add_gate_def Let_def a s)
  with False ng len show ?thesis by auto
qed

text \<open>
  The theorem at the initial state: an AND gate of inputs 0 and 1 becomes gate 8, and an
  XOR gate whose second input is \<open>NO_GATE\<close> is not added.
\<close>

theorem add_gate_appends_witness:
  "num_gates initial_state \<le> max_gates initial_state \<and> max_gates initial_state \<le> MAX_GATES \<and>
   length (gates initial_state) = MAX_GATES \<and> 0 < num_gates initial_state \<and>
   1 < num_gates initial_state \<and>
   add_gate initial_state AND 0 0 1 \<noteq> Inr (NO_GATE, initial_state) \<and>
   (\<exists>st'. add_gate initial_state AND 0 0 1 = Inr (8, st') \<and> num_gates st' = 9 \<and>
      gates st' ! 8 = \<lparr>type = AND, table = 0, in1 = 0, in2 = 1\<rparr>) \<and>
   add_gate initial_state XOR 0 0 NO_GATE = Inr (NO_GATE, initial_state)"
  using add_gate_appends [of initial_state AND 0 1 0]
    add_gate_appends [of initial_state XOR 0 NO_GATE 0]
  by (auto simp: NO_GATE_def initial_state_def MAX_GATES_def)

subsection \<open>Loops that return at the first hit\<close>

lemma first_match_append:
  "first_match f (xs @ ys) = (case first_match f xs of Some r \<Rightarrow> Some r | None \<Rightarrow> first_match f ys)"
  by (induction xs) (auto split: option.splits)

lemma first_match_None_iff: "first_match f xs = None \<longleftrightarrow> (\<forall>x\<in>set xs. f x = None)"
  by (induction xs) (auto split: option.splits)

lemma first_match_SomeD: "first_match f xs = Some r \<Longrightarrow> \<exists>x\<in>set xs. f x = Some r"
  by (induction xs) (auto split: option.splits)

lemma first_match_upt_Least:
  "first_match (\<lambda>i. if P i then Some (f i) else None) [0..<n] =
     (if \<exists>i<n. P i then Some (f (LEAST i. P i)) else None)"
proof (induction n)
  case 0
  show ?case by simp
next
  case (Suc n)
  show ?case
  proof (cases "\<exists>i<n. P i")
    case True
    then have "\<exists>i<Suc n. P i" using less_Suc_eq by blast
    with True Suc show ?thesis by (simp add: first_match_append)
  next
    case False
    then have none: "\<forall>i<n. \<not> P i" by blast
    show ?thesis
    proof (cases "P n")
      case True
      with none have "(LEAST i. P i) = n"
        by (intro Least_equality) (auto simp: not_less [symmetric])
      with True False Suc show ?thesis
        by (auto simp: first_match_append)
    next
      case False
      with none have "\<not> (\<exists>i<Suc n. P i)" using less_Suc_eq by auto
      with False none Suc show ?thesis by (simp add: first_match_append)
    qed
  qed
qed

lemma ttable_equals_mask_sym: "ttable_equals_mask a b m = ttable_equals_mask b a m"
  by (simp add: ttable_equals_mask_def xor.commute)

lemma gates_initial_nth:
  "gates initial_state ! 0 = input_gate 0" "gates initial_state ! 1 = input_gate 1"
  "gates initial_state ! 2 = input_gate 2" "gates initial_state ! 3 = input_gate 3"
  "gates initial_state ! 4 = input_gate 4" "gates initial_state ! 5 = input_gate 5"
  "gates initial_state ! 6 = input_gate 6" "gates initial_state ! 7 = input_gate 7"
  by (simp_all add: initial_state_def)

lemma ttable_equals_mask_refl: "ttable_equals_mask a a m"
  by (simp add: ttable_equals_mask_def testz_def)

subsection \<open>Reuse of an existing gate\<close>

text \<open>
  Claim C6. If an existing gate \<open>i\<close> has the wanted table under the mask, the call returns
  the smallest index of such a gate, and the state, \<^verbatim>\<open>num_gates\<close> included, is the state it
  was called on.
\<close>

theorem reuse_first:
  assumes "i < num_gates st" "ttable_equals_mask (table (gates st ! i)) target msk"
  shows "create_circuit st target msk inbits =
           Inr (LEAST j. ttable_equals_mask (table (gates st ! j)) target msk, st)
         \<and> (LEAST j. ttable_equals_mask (table (gates st ! j)) target msk) \<le> i"
proof -
  let ?P = "\<lambda>j. ttable_equals_mask target (table (gates st ! j)) msk"
  from assms have ex: "\<exists>j<num_gates st. ?P j"
    using ttable_equals_mask_sym by blast
  have "find_gate st target msk = Some (LEAST j. ?P j)"
    unfolding find_gate_def using ex by (simp add: first_match_upt_Least [where f = "\<lambda>j. j"])
  then have "create_circuit st target msk inbits = Inr (LEAST j. ?P j, st)"
    by (subst create_circuit.simps) simp
  moreover have "?P = (\<lambda>j. ttable_equals_mask (table (gates st ! j)) target msk)"
    by (rule ext) (rule ttable_equals_mask_sym)
  moreover have "(LEAST j. ?P j) \<le> i"
    using assms by (intro Least_le) (simp add: ttable_equals_mask_sym)
  ultimately show ?thesis by simp
qed

text \<open>The theorem at the initial state: asked for the table of input 0, the call returns gate 0.\<close>

theorem reuse_first_witness:
  "0 < num_gates initial_state \<and>
   ttable_equals_mask (table (gates initial_state ! 0)) (target_table 0 False) full_mask \<and>
   create_circuit initial_state (target_table 0 False) full_mask (replicate 8 (- 1)) =
     Inr (0, initial_state)"
proof -
  have h: "ttable_equals_mask (table (gates initial_state ! 0)) (target_table 0 False) full_mask"
    by (simp add: gates_initial_nth input_gate_def ttable_equals_mask_refl)
  have "0 < num_gates initial_state" by simp
  from reuse_first [OF this h, of "replicate 8 (- 1)"] h show ?thesis by simp
qed

subsection \<open>Target tables\<close>

text \<open>
  The loop of \<^verbatim>\<open>generate_target\<close> shifts one bit at a time into the top of the current lane.
  Before round \<open>i\<close>, lane \<open>l\<close> holds \<open>filled i l\<close> source bits in its upper end.
\<close>

definition source_bit :: "nat \<Rightarrow> bool \<Rightarrow> nat \<Rightarrow> bool" where
  "source_bit bitn sbox i = bit (if sbox then g_sbox_enc ! i else i) bitn"

definition filled :: "nat \<Rightarrow> nat \<Rightarrow> nat" where
  "filled i l = min 64 (i - 64 * l)"

definition lanes_inv :: "nat \<Rightarrow> bool \<Rightarrow> nat \<Rightarrow> 64 word list \<times> nat \<Rightarrow> bool" where
  "lanes_inv bitn sbox i s =
     (length (fst s) = 4 \<and> snd s = (i - 1) div 64 \<and>
      (\<forall>l<4. \<forall>j. bit (fst s ! l) j \<longleftrightarrow>
         j < 64 \<and> 64 - filled i l \<le> j \<and> source_bit bitn sbox (64 * l + j + filled i l - 64)))"

lemma div64_eq: "(l = i div 64) = (64 * l \<le> i \<and> i < 64 * l + 64)" for i l :: nat
  by (auto simp: div_nat_eqI) 

lemma filled_Suc:
  "filled (Suc i) l = filled i l + (if l = i div 64 then 1 else 0)"
  unfolding filled_def div64_eq min_def by (simp split: nat_diff_split)

lemma filled_here: "filled i (i div 64) = i mod 64"
proof -
  have "i - 64 * (i div 64) = i mod 64"
    by (simp add: minus_mult_div_eq_mod)
  then show ?thesis
    unfolding filled_def by simp
qed

lemma var_eq:
  fixes i :: nat
  assumes "i < 256"
  shows "(if i = 64 then 1 else if i = 128 then 2 else if i = 192 then 3 else (i - 1) div 64) = i div 64"
proof -
  have d: "\<And>n k::nat. 64 * k \<le> n \<Longrightarrow> n < 64 * k + 64 \<Longrightarrow> n div 64 = k"
    by (simp add: div_nat_eqI)
  from assms consider "i < 64" | "64 \<le> i" "i < 128" | "128 \<le> i" "i < 192" | "192 \<le> i" "i < 256"
    by linarith
  then show ?thesis
  proof cases
    case 1
    then show ?thesis by simp
  next
    case 2
    then have "i div 64 = 1" by (intro d) simp_all
    moreover have "i \<noteq> 64 \<Longrightarrow> (i - 1) div 64 = 1" using 2 by (intro d) simp_all
    ultimately show ?thesis using 2 by simp
  next
    case 3
    then have "i div 64 = 2" by (intro d) simp_all
    moreover have "i \<noteq> 128 \<Longrightarrow> (i - 1) div 64 = 2" using 3 by (intro d) simp_all
    ultimately show ?thesis using 3 by simp
  next
    case 4
    then have "i div 64 = 3" by (intro d) simp_all
    moreover have "i \<noteq> 192 \<Longrightarrow> (i - 1) div 64 = 3" using 4 by (intro d) simp_all
    ultimately show ?thesis using 4 by simp
  qed
qed


lemma new_bit_bool:
  "bit (push_bit 63 (of_bool b) :: 64 word) j \<longleftrightarrow> j = 63 \<and> b"
proof -
  have "bit (push_bit 63 (of_bool b) :: 64 word) j \<longleftrightarrow>
        63 \<le> j \<and> j < 64 \<and> bit (of_bool b :: 64 word) (j - 63)"
    by (simp only: bit_push_bit_iff possible_bit_word len_num0 len_num1 len_bit0 len_bit1) auto
  also have "\<dots> \<longleftrightarrow> j = 63 \<and> b"
    by (simp only: bit_of_bool_iff) auto
  finally show ?thesis .
qed

lemma shift_in:
  fixes v :: "64 word"
  assumes v: "\<And>j. bit v j \<longleftrightarrow> j < 64 \<and> 64 - r \<le> j \<and> S (b + j + r - 64)"
    and r: "r < 64"
  shows "bit (or (drop_bit 1 v) (push_bit 63 (of_bool (S (b + r))))) j \<longleftrightarrow>
           j < 64 \<and> 64 - Suc r \<le> j \<and> S (b + j + Suc r - 64)"
proof -
  have "bit (or (drop_bit 1 v) (push_bit 63 (of_bool (S (b + r))))) j \<longleftrightarrow>
        bit v (Suc j) \<or> (j = 63 \<and> S (b + r))"
    by (simp only: bit_or_iff new_bit_bool bit_drop_bit_eq comp_def plus_1_eq_Suc)
  also have "\<dots> \<longleftrightarrow> j < 64 \<and> 64 - Suc r \<le> j \<and> S (b + j + Suc r - 64)"
  proof (cases "j = 63")
    case True
    then have "b + j + Suc r - 64 = b + r" by simp
    with True r show ?thesis by (simp add: v)
  next
    case False
    have "b + Suc j + r - 64 = b + j + Suc r - 64" by simp
    then have "S (b + Suc j + r - 64) = S (b + j + Suc r - 64)" by (rule arg_cong)
    moreover have "Suc j < 64 \<and> 64 - r \<le> Suc j \<longleftrightarrow> j < 64 \<and> 64 - Suc r \<le> j"
      using False r by linarith
    ultimately show ?thesis using False by (simp only: v) blast
  qed
  finally show ?thesis .
qed


lemma source_word:
  "(of_nat (and (drop_bit bitn (if sbox then g_sbox_enc ! i else i)) 1) :: 64 word) =
     of_bool (source_bit bitn sbox i)"
proof -
  have "and (drop_bit bitn x) 1 = of_bool (bit x bitn)" for x :: nat
    by (simp add: and_one_eq bit_iff_odd_drop_bit mod_2_eq_odd)
  then show ?thesis
    by (simp only: source_bit_def of_nat_of_bool)
qed

lemma target_step_eq:
  assumes "i < 256" "var = (i - 1) div 64"
  shows "target_step bitn sbox (vec, var) i =
     (vec[i div 64 := or (drop_bit 1 (vec ! (i div 64)))
                         (push_bit 63 (of_bool (source_bit bitn sbox i)))], i div 64)"
  unfolding target_step_def Let_def prod.case source_word assms(2) var_eq [OF assms(1)] ..


lemma lanes_inv_step:
  assumes inv: "lanes_inv bitn sbox i s" and i: "i < 256"
  shows "lanes_inv bitn sbox (Suc i) (target_step bitn sbox s i)"
proof -
  obtain vec var where s: "s = (vec, var)" by (cases s)
  let ?q = "i div 64"
  let ?v = "or (drop_bit 1 (vec ! ?q)) (push_bit 63 (of_bool (source_bit bitn sbox i)))"
  from inv have len: "length vec = 4" and var: "var = (i - 1) div 64"
    and bits: "\<And>l j. l < 4 \<Longrightarrow> bit (vec ! l) j \<longleftrightarrow>
         j < 64 \<and> 64 - filled i l \<le> j \<and> source_bit bitn sbox (64 * l + j + filled i l - 64)"
    unfolding lanes_inv_def s fst_conv snd_conv by blast+
  from i have q: "?q < 4" by simp
  have step: "target_step bitn sbox s i = (vec[?q := ?v], ?q)"
    unfolding s by (rule target_step_eq [OF i var])
  have new: "bit (vec[?q := ?v] ! l) j \<longleftrightarrow>
         j < 64 \<and> 64 - filled (Suc i) l \<le> j \<and>
         source_bit bitn sbox (64 * l + j + filled (Suc i) l - 64)" if l: "l < 4" for l j
  proof (cases "l = ?q")
    case False
    then have "filled (Suc i) l = filled i l"
      by (simp only: filled_Suc if_False add_0_right)
    moreover from False have "vec[?q := ?v] ! l = vec ! l"
      by (simp only: nth_list_update_neq not_sym)
    ultimately show ?thesis
      using bits [OF l] by (simp only:)
  next
    case True
    have f: "filled i l = i mod 64" "filled (Suc i) l = Suc (i mod 64)"
      unfolding filled_Suc True filled_here by simp_all
    have il: "64 * l + i mod 64 = i" unfolding True by simp
    have old: "bit (vec ! ?q) j \<longleftrightarrow>
        j < 64 \<and> 64 - i mod 64 \<le> j \<and> source_bit bitn sbox (64 * l + j + i mod 64 - 64)" for j
      using bits [OF l, of j] unfolding True filled_here .
    have "vec[?q := ?v] ! l = ?v"
      unfolding True using q len by (simp only: nth_list_update_eq)
    moreover have "bit ?v j \<longleftrightarrow> j < 64 \<and> 64 - Suc (i mod 64) \<le> j \<and>
        source_bit bitn sbox (64 * l + j + Suc (i mod 64) - 64)"
      using shift_in [of "vec ! ?q" "i mod 64" "source_bit bitn sbox" "64 * l" j, OF old]
      unfolding il by simp
    ultimately show ?thesis
      unfolding f by (simp only:)
  qed
  have "length (vec[?q := ?v]) = 4" using len by simp
  moreover have "?q = (Suc i - 1) div 64" by simp
  ultimately show ?thesis
    unfolding lanes_inv_def step fst_conv snd_conv using new by blast
qed


lemma lanes_inv_loop:
  "lanes_inv bitn sbox i s \<Longrightarrow> i \<le> 256 \<Longrightarrow> lanes_inv bitn sbox 256 (target_loop bitn sbox i s)"
proof (induction bitn sbox i s rule: target_loop.induct)
  case (1 bitn sbox i s)
  show ?case
  proof (cases "i < 256")
    case True
    from lanes_inv_step [OF "1.prems"(1) True]
    have "lanes_inv bitn sbox (i + 1) (target_step bitn sbox s i)" by simp
    from "1.IH" [OF True this] True
    have "lanes_inv bitn sbox 256 (target_loop bitn sbox (i + 1) (target_step bitn sbox s i))"
      by simp
    with True show ?thesis
      by (subst target_loop.simps) (simp only: if_True)
  next
    case False
    with "1.prems" have "i = 256" by simp
    with "1.prems" show ?thesis
      by (subst target_loop.simps) simp
  qed
qed

lemma lanes_inv_0: "lanes_inv bitn sbox 0 ([0, 0, 0, 0], 0)"
proof -
  have "[0, 0, 0, 0 :: 64 word] ! l = 0" if "l < 4" for l
  proof -
    from that consider "l = 0" | "l = 1" | "l = 2" | "l = 3" by linarith
    then show ?thesis by cases simp_all
  qed
  then show ?thesis
    by (simp add: lanes_inv_def filled_def)
qed

lemma lanes_final:
  assumes "l < 4"
  shows "bit (fst (target_loop bitn sbox 0 ([0, 0, 0, 0], 0)) ! l) j \<longleftrightarrow>
           j < 64 \<and> source_bit bitn sbox (64 * l + j)"
proof -
  have "lanes_inv bitn sbox 256 (target_loop bitn sbox 0 ([0, 0, 0, 0], 0))"
    by (rule lanes_inv_loop [OF lanes_inv_0]) simp
  moreover have "filled 256 l = 64"
    using assms by (simp add: filled_def)
  ultimately show ?thesis
    using assms by (simp add: lanes_inv_def)
qed

lemma bit_ucast_lane: "bit (ucast w :: ttable) m \<longleftrightarrow> m < 64 \<and> bit w m" for w :: "64 word" and m
  by (auto simp: bit_ucast_iff dest: bit_imp_le_length)

lemma bit_push_lane:
  "bit (push_bit k (ucast w :: ttable)) n \<longleftrightarrow> k \<le> n \<and> n < 256 \<and> n - k < 64 \<and> bit w (n - k)"
    for w :: "64 word" and k
  by (auto simp: bit_push_bit_iff bit_ucast_lane)

lemma bit_loadu_lanes:
  "bit (loadu vec) n \<longleftrightarrow>
     (n < 64 \<and> bit (vec ! 0) n) \<or> (64 \<le> n \<and> n < 128 \<and> bit (vec ! 1) (n - 64)) \<or>
     (128 \<le> n \<and> n < 192 \<and> bit (vec ! 2) (n - 128)) \<or>
     (192 \<le> n \<and> n < 256 \<and> bit (vec ! 3) (n - 192))"
  unfolding loadu_def bit_or_iff bit_push_lane bit_ucast_lane by auto

lemma bit_loadu:
  "bit (loadu vec) n \<longleftrightarrow> n < 256 \<and> bit (vec ! (n div 64)) (n mod 64)"
proof -
  have d: "n div 64 = k \<and> n mod 64 = n - 64 * k" if "64 * k \<le> n" "n < 64 * k + 64" for k
  proof -
    from that have "n div 64 = k" by (intro div_nat_eqI) simp_all
    moreover have "n mod 64 = n - 64 * (n div 64)" by (simp add: minus_mult_div_eq_mod)
    ultimately show ?thesis by simp
  qed
  consider "n < 64" | "64 \<le> n" "n < 128" | "128 \<le> n" "n < 192" | "192 \<le> n" "n < 256" | "256 \<le> n"
    by linarith
  then show ?thesis
  proof cases
    case 1
    with d [of 0] have "n div 64 = 0" "n mod 64 = n" by simp_all
    with 1 show ?thesis unfolding bit_loadu_lanes by simp
  next
    case 2
    with d [of 1] have "n div 64 = 1" "n mod 64 = n - 64" by simp_all
    with 2 show ?thesis unfolding bit_loadu_lanes by simp
  next
    case 3
    with d [of 2] have "n div 64 = 2" "n mod 64 = n - 128" by simp_all
    with 3 show ?thesis unfolding bit_loadu_lanes by simp
  next
    case 4
    with d [of 3] have "n div 64 = 3" "n mod 64 = n - 192" by simp_all
    with 4 show ?thesis unfolding bit_loadu_lanes by simp
  next
    case 5
    then show ?thesis unfolding bit_loadu_lanes by simp
  qed
qed

lemma bit_target_table:
  "bit (target_table bitn sbox) i \<longleftrightarrow>
     i < 256 \<and> bit (if sbox then g_sbox_enc ! i else i) bitn"
proof (cases "i < 256")
  case True
  then have "i div 64 < 4" by simp
  from lanes_final [OF this, of bitn sbox "i mod 64"] True show ?thesis
    by (simp add: target_table_def bit_loadu source_bit_def)
next
  case False
  then show ?thesis by (simp add: target_table_def bit_loadu)
qed


lemma gates_initial:
  assumes "b < 8"
  shows "gates initial_state ! b = input_gate b"
proof -
  from assms consider "b = 0" | "b = 1" | "b = 2" | "b = 3" | "b = 4" | "b = 5" | "b = 6" | "b = 7"
    by linarith
  then show ?thesis by cases (simp_all add: gates_initial_nth del: One_nat_def)
qed

text \<open>
  Claim C8. For \<open>b < 8\<close> the assertion of \<^verbatim>\<open>generate_target\<close> holds and bit \<open>i\<close> of the table
  is bit \<open>b\<close> of \<^verbatim>\<open>sbox ? S[i] : i\<close>, for every \<open>i < 256\<close>. The run without arguments builds
  \<open>initial_state\<close>, whose gates 0 to 7 are \<open>IN\<close> gates, and bit \<open>i\<close> of the table of gate \<open>b\<close>
  is bit \<open>b\<close> of \<open>i\<close>.
\<close>

theorem generate_target_bits:
  assumes "b < 8" "i < 256"
  shows "generate_target b sbox = Inr (target_table b sbox) \<and>
         (bit (target_table b sbox) i \<longleftrightarrow> bit (if sbox then g_sbox_enc ! i else i) b) \<and>
         new_default_state = Inr initial_state \<and> num_gates initial_state = 8 \<and>
         type (gates initial_state ! b) = IN \<and>
         (bit (table (gates initial_state ! b)) i \<longleftrightarrow> bit i b)"
  using assms
  by (simp add: generate_target_def bit_target_table new_default_state_eq gates_initial
        input_gate_def)

text \<open>The theorem at \<open>b = 3\<close>, \<open>i = 5\<close>: \<open>S[5] = 0xcb\<close> has bit 3 set, 5 has not.\<close>

theorem generate_target_bits_witness:
  "(3::nat) < 8 \<and> (5::nat) < 256 \<and> generate_target 3 True = Inr (target_table 3 True) \<and>
   bit (target_table 3 True) 5 \<and> g_sbox_enc ! 5 = 203 \<and> bit (203::nat) 3 \<and>
   type (gates initial_state ! 3) = IN \<and> \<not> bit (table (gates initial_state ! 3)) 5"
proof -
  have "g_sbox_enc ! 5 = 203" by (simp add: g_sbox_enc_def)
  moreover have "bit (203::nat) 3" "\<not> bit (5::nat) 3" by (simp_all add: bit_iff_odd_drop_bit)
  ultimately show ?thesis
    using generate_target_bits [of 3 5 True] by simp
qed

subsection \<open>Tables as numerals\<close>

text \<open>
  The table of an input or of an output bit, built from its highest index down: the same
  word as \<open>target_table\<close>, in a form that evaluates to a numeral.
\<close>

function tt_loop :: "(nat \<Rightarrow> bool) \<Rightarrow> nat \<Rightarrow> ttable \<Rightarrow> ttable" where
  "tt_loop f n acc = (if n = 0 then acc else tt_loop f (n - 1) (2 * acc + of_bool (f (n - 1))))"
  by pat_completeness auto
termination
  by (relation "measure (\<lambda>(f, n, acc). n)") auto

declare tt_loop.simps [simp del]

lemma bit_shift_in:
  "bit (2 * acc + of_bool b :: ttable) j \<longleftrightarrow> j < 256 \<and> (if j = 0 then b else bit acc (j - 1))"
proof -
  have "2 * acc + of_bool b = or (push_bit 1 acc) (of_bool b)"
    by (cases b) (simp_all add: or_one_eq push_bit_eq_mult)
  moreover have "bit (or (push_bit 1 acc) (of_bool b :: ttable)) j \<longleftrightarrow>
      (1 \<le> j \<and> j < 256 \<and> bit acc (j - 1)) \<or> (b \<and> j = 0)"
    by (simp only: bit_or_iff bit_push_bit_iff bit_of_bool_iff possible_bit_word
          len_num0 len_num1 len_bit0 len_bit1) auto
  ultimately show ?thesis
    by (simp only:) auto
qed

lemma bit_tt_loop:
  "n \<le> 256 \<Longrightarrow> bit (tt_loop f n acc) j \<longleftrightarrow> j < 256 \<and> (if j < n then f j else bit acc (j - n))"
proof (induction f n acc rule: tt_loop.induct)
  case (1 f n acc)
  show ?case
  proof (cases "n = 0")
    case True
    then show ?thesis
      by (subst tt_loop.simps) (auto dest: bit_imp_le_length)
  next
    case False
    then obtain m where n: "n = Suc m" by (cases n) auto
    from "1.IH" [OF False] "1.prems" n
    have "bit (tt_loop f m (2 * acc + of_bool (f m))) j \<longleftrightarrow>
            j < 256 \<and> (if j < m then f j else bit (2 * acc + of_bool (f m)) (j - m))"
      by simp
    moreover have "tt_loop f n acc = tt_loop f m (2 * acc + of_bool (f m))"
      using n by (subst tt_loop.simps) simp
    ultimately show ?thesis
      using n "1.prems" by (auto simp: bit_shift_in less_Suc_eq Suc_diff_le)
  qed
qed

lemma target_table_tt_loop:
  "target_table bitn sbox = tt_loop (\<lambda>i. bit (if sbox then g_sbox_enc ! i else i) bitn) 256 0"
  by (rule bit_word_eqI) (simp add: bit_target_table bit_tt_loop)

lemma target_table_0: "target_table 0 False = 0xAAAAAAAAAAAAAAAAAAAAAAAAAAAAAAAAAAAAAAAAAAAAAAAAAAAAAAAAAAAAAAAA"
  by (simp add: target_table_tt_loop tt_loop.simps bit_Suc_0_iff)

lemma target_table_1: "target_table 1 False = 0xCCCCCCCCCCCCCCCCCCCCCCCCCCCCCCCCCCCCCCCCCCCCCCCCCCCCCCCCCCCCCCCC"
  by (simp add: target_table_tt_loop tt_loop.simps bit_Suc_0_iff)

lemma target_table_2: "target_table 2 False = 0xF0F0F0F0F0F0F0F0F0F0F0F0F0F0F0F0F0F0F0F0F0F0F0F0F0F0F0F0F0F0F0F0"
  by (simp add: target_table_tt_loop tt_loop.simps bit_Suc_0_iff)

lemma target_table_3: "target_table 3 False = 0xFF00FF00FF00FF00FF00FF00FF00FF00FF00FF00FF00FF00FF00FF00FF00FF00"
  by (simp add: target_table_tt_loop tt_loop.simps bit_Suc_0_iff)

lemma target_table_4: "target_table 4 False = 0xFFFF0000FFFF0000FFFF0000FFFF0000FFFF0000FFFF0000FFFF0000FFFF0000"
  by (simp add: target_table_tt_loop tt_loop.simps bit_Suc_0_iff)

lemma target_table_5: "target_table 5 False = 0xFFFFFFFF00000000FFFFFFFF00000000FFFFFFFF00000000FFFFFFFF00000000"
  by (simp add: target_table_tt_loop tt_loop.simps bit_Suc_0_iff)

lemma target_table_6: "target_table 6 False = 0xFFFFFFFFFFFFFFFF0000000000000000FFFFFFFFFFFFFFFF0000000000000000"
  by (simp add: target_table_tt_loop tt_loop.simps bit_Suc_0_iff)

lemma target_table_7: "target_table 7 False = 0xFFFFFFFFFFFFFFFFFFFFFFFFFFFFFFFF00000000000000000000000000000000"
  by (simp add: target_table_tt_loop tt_loop.simps bit_Suc_0_iff)


text \<open>Equality of tables that are numerals.\<close>

lemma numeral_neq_0_256:
  "(numeral k :: nat) < 2 ^ 256 \<Longrightarrow> (numeral k :: 256 word) \<noteq> 0"
proof
  assume lt: "(numeral k :: nat) < 2 ^ 256" and z: "(numeral k :: 256 word) = 0"
  have "(numeral k :: 256 word) = word_of_nat (numeral k)"
    by (simp only: of_nat_numeral)
  with z have "(2 :: nat) ^ LENGTH(256) dvd numeral k"
    by (simp only: word_of_nat_eq_0_iff)
  then have "(2 :: nat) ^ 256 dvd numeral k" by simp
  moreover have "(0 :: nat) < numeral k" by simp
  ultimately show False
    using lt nat_dvd_not_less by blast
qed

lemma ones_256: "(- 1 :: 256 word) = 0xFFFFFFFFFFFFFFFFFFFFFFFFFFFFFFFFFFFFFFFFFFFFFFFFFFFFFFFFFFFFFFFF"
  by simp

lemma word_not_num:
  "not (w :: 256 word) = xor w 0xFFFFFFFFFFFFFFFFFFFFFFFFFFFFFFFFFFFFFFFFFFFFFFFFFFFFFFFFFFFFFFFF"
  by (simp only: ones_256 [symmetric] bit.xor_one_right)


lemma word256_numeral_eq:
  assumes "(numeral a :: nat) < 115792089237316195423570985008687907853269984665640564039457584007913129639936" "(numeral b :: nat) < 115792089237316195423570985008687907853269984665640564039457584007913129639936"
  shows "(numeral a :: 256 word) = numeral b \<longleftrightarrow> a = b"
proof -
  have N: "(115792089237316195423570985008687907853269984665640564039457584007913129639936 :: nat) = 2 ^ 256" by simp
  from assms have a: "take_bit 256 (numeral a :: nat) = numeral a"
    and b: "take_bit 256 (numeral b :: nat) = numeral b"
    unfolding N by (simp_all only: take_bit_nat_eq_self)
  have "(numeral a :: 256 word) = numeral b \<longleftrightarrow>
        (word_of_nat (numeral a) :: 256 word) = word_of_nat (numeral b)"
    by (simp only: of_nat_numeral)
  also have "\<dots> \<longleftrightarrow> take_bit LENGTH(256) (numeral a :: nat) = take_bit LENGTH(256) (numeral b)"
    by (rule word_of_nat_eq_iff)
  also have "\<dots> \<longleftrightarrow> (numeral a :: nat) = numeral b"
    using a b by simp
  also have "\<dots> \<longleftrightarrow> a = b" by simp
  finally show ?thesis .
qed

lemma word256_numeral_0:
  assumes "(numeral a :: nat) < 115792089237316195423570985008687907853269984665640564039457584007913129639936"
  shows "(numeral a :: 256 word) \<noteq> 0" "(0 :: 256 word) \<noteq> numeral a"
  using numeral_neq_0_256 [of a] assms by auto


lemma xor_eq_0_iff: "xor a b = 0 \<longleftrightarrow> a = b" for a b :: ttable
proof
  assume "xor a b = 0"
  then have "xor (xor a b) b = xor 0 b" by simp
  then show "a = b" by (simp add: xor.assoc)
qed simp

lemma ttable_equals_iff: "ttable_equals a b \<longleftrightarrow> a = b"
  by (simp add: ttable_equals_def testz_def Let_def xor_eq_0_iff)

text \<open>The tables of the eight inputs.\<close>

lemma initial_tables:
  "table (gates initial_state ! 0) = 0xAAAAAAAAAAAAAAAAAAAAAAAAAAAAAAAAAAAAAAAAAAAAAAAAAAAAAAAAAAAAAAAA"
  "table (gates initial_state ! Suc 0) = 0xCCCCCCCCCCCCCCCCCCCCCCCCCCCCCCCCCCCCCCCCCCCCCCCCCCCCCCCCCCCCCCCC"
  "table (gates initial_state ! 2) = 0xF0F0F0F0F0F0F0F0F0F0F0F0F0F0F0F0F0F0F0F0F0F0F0F0F0F0F0F0F0F0F0F0"
  "table (gates initial_state ! 3) = 0xFF00FF00FF00FF00FF00FF00FF00FF00FF00FF00FF00FF00FF00FF00FF00FF00"
  "table (gates initial_state ! 4) = 0xFFFF0000FFFF0000FFFF0000FFFF0000FFFF0000FFFF0000FFFF0000FFFF0000"
  "table (gates initial_state ! 5) = 0xFFFFFFFF00000000FFFFFFFF00000000FFFFFFFF00000000FFFFFFFF00000000"
  "table (gates initial_state ! 6) = 0xFFFFFFFFFFFFFFFF0000000000000000FFFFFFFFFFFFFFFF0000000000000000"
  "table (gates initial_state ! 7) = 0xFFFFFFFFFFFFFFFFFFFFFFFFFFFFFFFF00000000000000000000000000000000"
  using gates_initial_nth target_table_1
  by (simp_all add: input_gate_def target_table_0 target_table_2 target_table_3
        target_table_4 target_table_5 target_table_6 target_table_7)


subsection \<open>The tests for one triple of gates\<close>

lemma first_match_nth:
  "first_match f xs = Some r \<longleftrightarrow>
     (\<exists>n<length xs. f (xs ! n) = Some r \<and> (\<forall>j<n. f (xs ! j) = None))"
proof (induction xs)
  case Nil
  show ?case by simp
next
  case (Cons x xs)
  show ?case
  proof (cases "f x")
    case None
    have "(\<exists>n<length (x # xs). f ((x # xs) ! n) = Some r \<and> (\<forall>j<n. f ((x # xs) ! j) = None)) \<longleftrightarrow>
          (\<exists>n<length xs. f (xs ! n) = Some r \<and> (\<forall>j<n. f (xs ! j) = None))"
      (is "?L \<longleftrightarrow> ?R")
    proof
      assume ?L
      then obtain n where n: "n < length (x # xs)" "f ((x # xs) ! n) = Some r"
        "\<forall>j<n. f ((x # xs) ! j) = None" by blast
      with None obtain n' where n': "n = Suc n'" by (cases n) auto
      with n have "n' < length xs" "f (xs ! n') = Some r" by auto
      moreover have "\<forall>j<n'. f (xs ! j) = None"
      proof (intro allI impI)
        fix j assume "j < n'"
        then have "Suc j < n" using n' by simp
        with n(3) have "f ((x # xs) ! Suc j) = None" by blast
        then show "f (xs ! j) = None" by simp
      qed
      ultimately show ?R by blast
    next
      assume ?R
      then obtain n where n: "n < length xs" "f (xs ! n) = Some r" "\<forall>j<n. f (xs ! j) = None"
        by blast
      have "\<forall>j<Suc n. f ((x # xs) ! j) = None"
      proof (intro allI impI)
        fix j assume "j < Suc n"
        then show "f ((x # xs) ! j) = None" using None n(3) by (cases j) auto
      qed
      with n(1,2) show ?L by (intro exI [of _ "Suc n"]) auto
    qed
    with None Cons.IH show ?thesis by simp
  next
    case (Some a)
    have "(\<exists>n<length (x # xs). f ((x # xs) ! n) = Some r \<and> (\<forall>j<n. f ((x # xs) ! j) = None)) \<longleftrightarrow>
          a = r" (is "?L \<longleftrightarrow> _")
    proof
      assume ?L
      then obtain n where n: "f ((x # xs) ! n) = Some r" "\<forall>j<n. f ((x # xs) ! j) = None"
        by blast
      have "n = 0"
      proof (rule ccontr)
        assume "n \<noteq> 0"
        with n(2) have "f ((x # xs) ! 0) = None" by blast
        with Some show False by simp
      qed
      with n(1) Some show "a = r" by simp
    next
      assume "a = r"
      with Some show ?L by (intro exI [of _ 0]) auto
    qed
    with Some show ?thesis by simp
  qed
qed

lemma first_match_upt:
  "first_match f [a..<n] = Some r \<longleftrightarrow>
     (\<exists>x. a \<le> x \<and> x < n \<and> f x = Some r \<and> (\<forall>y. a \<le> y \<and> y < x \<longrightarrow> f y = None))"
  (is "?L \<longleftrightarrow> ?R")
proof
  assume ?L
  then obtain j where j: "j < length [a..<n]" "f ([a..<n] ! j) = Some r"
    "\<forall>l<j. f ([a..<n] ! l) = None"
    unfolding first_match_nth by blast
  have "\<forall>y. a \<le> y \<and> y < a + j \<longrightarrow> f y = None"
  proof (intro allI impI)
    fix y assume y: "a \<le> y \<and> y < a + j"
    then have "y - a < j" by auto
    with j(3) have "f ([a..<n] ! (y - a)) = None" by blast
    moreover have "a + (y - a) < n" "a + (y - a) = y" using y j(1) by auto
    then have "[a..<n] ! (y - a) = y" using nth_upt [of a "y - a" n] by simp
    ultimately show "f y = None" by simp
  qed
  with j(1,2) show ?R by (intro exI [of _ "a + j"]) auto
next
  assume ?R
  then obtain x where x: "a \<le> x" "x < n" "f x = Some r" "\<forall>y. a \<le> y \<and> y < x \<longrightarrow> f y = None"
    by blast
  have "\<forall>l<x - a. f ([a..<n] ! l) = None"
  proof (intro allI impI)
    fix l assume "l < x - a"
    with x(1,2) have "a + l < n" "a \<le> a + l \<and> a + l < x" by auto
    then have "[a..<n] ! l = a + l" "a \<le> a + l \<and> a + l < x" by simp_all
    with x(4) show "f ([a..<n] ! l) = None" by simp
  qed
  moreover have "x - a < length [a..<n]" using x(1,2) by auto
  moreover have "a + (x - a) < n" "a + (x - a) = x" using x(1,2) by auto
  then have "[a..<n] ! (x - a) = x" using nth_upt [of a "x - a" n] by simp
  ultimately show ?L unfolding first_match_nth using x(3) by (intro exI [of _ "x - a"]) auto
qed

text \<open>The comparison of one entry of \<open>triple_tests\<close> in \<open>triple_gate\<close>.\<close>

definition triple_test ::
  "state \<Rightarrow> ttable \<Rightarrow> ttable \<times> chain \<times> nat \<times> nat \<times> nat \<Rightarrow> (error + nat \<times> state) option" where
  "triple_test st mtarget = (\<lambda>(t, c, g1, g2, g3).
     if ttable_equals mtarget t then Some (add_chain st c g1 g2 g3) else None)"

lemma triple_test_None: "triple_test st mt x = None \<longleftrightarrow> fst x \<noteq> mt"
  by (cases x) (auto simp: triple_test_def ttable_equals_iff)

lemma triple_test_Some:
  "triple_test st mt x = Some res \<longleftrightarrow>
     fst x = mt \<and> res = (case x of (t, c, g1, g2, g3) \<Rightarrow> add_chain st c g1 g2 g3)"
  by (cases x) (auto simp: triple_test_def ttable_equals_iff)

lemma triple_gate_first_match:
  "triple_gate st mt msk i k m =
     first_match (triple_test st mt)
       (triple_tests (and (table (gates st ! i)) msk) (and (table (gates st ! k)) msk)
          (and (table (gates st ! m)) msk) i k m)"
  by (simp add: triple_gate_def Let_def triple_test_def)

lemma length_triple_tests: "length (triple_tests ti tk tm i k m) = 21"
  by (simp add: triple_tests_def Let_def)

lemma triple_gate_None:
  "triple_gate st mt msk i k m = None \<longleftrightarrow>
     (\<forall>n<21. fst (triple_tests (and (table (gates st ! i)) msk) (and (table (gates st ! k)) msk)
          (and (table (gates st ! m)) msk) i k m ! n) \<noteq> mt)"
  unfolding triple_gate_first_match first_match_None_iff triple_test_None
  by (simp add: all_set_conv_all_nth length_triple_tests)

lemma first_match_triple_test:
  "first_match (triple_test st mt) T = Some res \<longleftrightarrow>
     (\<exists>n<length T. fst (T ! n) = mt \<and> (\<forall>j<n. fst (T ! j) \<noteq> mt) \<and>
        res = (case T ! n of (t, c, g1, g2, g3) \<Rightarrow> add_chain st c g1 g2 g3))"
  by (simp only: first_match_nth triple_test_None triple_test_Some conj_ac)

lemma triple_gate_Some:
  "triple_gate st mt msk i k m = Some res \<longleftrightarrow>
     (\<exists>n<21. fst (triple_tests (and (table (gates st ! i)) msk) (and (table (gates st ! k)) msk)
          (and (table (gates st ! m)) msk) i k m ! n) = mt \<and>
        (\<forall>j<n. fst (triple_tests (and (table (gates st ! i)) msk) (and (table (gates st ! k)) msk)
          (and (table (gates st ! m)) msk) i k m ! j) \<noteq> mt) \<and>
        res = (case triple_tests (and (table (gates st ! i)) msk) (and (table (gates st ! k)) msk)
          (and (table (gates st ! m)) msk) i k m ! n of (t, c, g1, g2, g3) \<Rightarrow> add_chain st c g1 g2 g3))"
  by (simp only: triple_gate_first_match first_match_triple_test length_triple_tests)

lemma upt_triples:
  "(\<forall>a\<in>set [0..<n]. \<forall>b\<in>set [a + 1..<n]. \<forall>c\<in>set [b + 1..<n]. P a b c) \<longleftrightarrow>
   (\<forall>a b c. a < b \<and> b < c \<and> c < n \<longrightarrow> P a b c)" for n :: nat
proof
  assume l: "\<forall>a\<in>set [0..<n]. \<forall>b\<in>set [a + 1..<n]. \<forall>c\<in>set [b + 1..<n]. P a b c"
  show "\<forall>a b c. a < b \<and> b < c \<and> c < n \<longrightarrow> P a b c"
  proof (intro allI impI)
    fix a b c :: nat assume "a < b \<and> b < c \<and> c < n"
    then have "a \<in> set [0..<n]" "b \<in> set [a + 1..<n]" "c \<in> set [b + 1..<n]" by auto
    with l show "P a b c" by blast
  qed
next
  assume r: "\<forall>a b c. a < b \<and> b < c \<and> c < n \<longrightarrow> P a b c"
  show "\<forall>a\<in>set [0..<n]. \<forall>b\<in>set [a + 1..<n]. \<forall>c\<in>set [b + 1..<n]. P a b c"
  proof (intro ballI)
    fix a b c assume "a \<in> set [0..<n]" "b \<in> set [a + 1..<n]" "c \<in> set [b + 1..<n]"
    then have "a < b \<and> b < c \<and> c < n" by auto
    with r show "P a b c" by blast
  qed
qed

lemma search_triples_None:
  "search_triples st target msk = None \<longleftrightarrow>
     (\<forall>a b c. a < b \<and> b < c \<and> c < num_gates st \<longrightarrow>
        triple_gate st (and target msk) msk a b c = None)"
  by (simp only: search_triples_def Let_def first_match_None_iff upt_triples)


lemma upt_pairs:
  "(\<forall>b\<in>set [a + 1..<n]. \<forall>c\<in>set [b + 1..<n]. P b c) \<longleftrightarrow>
   (\<forall>b c. a < b \<and> b < c \<and> c < n \<longrightarrow> P b c)" for n :: nat
proof
  assume l: "\<forall>b\<in>set [a + 1..<n]. \<forall>c\<in>set [b + 1..<n]. P b c"
  show "\<forall>b c. a < b \<and> b < c \<and> c < n \<longrightarrow> P b c"
  proof (intro allI impI)
    fix b c :: nat assume "a < b \<and> b < c \<and> c < n"
    then have "b \<in> set [a + 1..<n]" "c \<in> set [b + 1..<n]" by auto
    with l show "P b c" by blast
  qed
next
  assume r: "\<forall>b c. a < b \<and> b < c \<and> c < n \<longrightarrow> P b c"
  show "\<forall>b\<in>set [a + 1..<n]. \<forall>c\<in>set [b + 1..<n]. P b c"
  proof (intro ballI)
    fix b c assume "b \<in> set [a + 1..<n]" "c \<in> set [b + 1..<n]"
    then have "a < b \<and> b < c \<and> c < n" by auto
    with r show "P b c" by blast
  qed
qed

lemma upt_singles:
  "(\<forall>c\<in>set [b + 1..<n]. P c) \<longleftrightarrow> (\<forall>c. b < c \<and> c < n \<longrightarrow> P c)" for n :: nat
  by auto

lemma first_match_upt_Suc:
  "first_match f [a + 1..<n] = Some r \<longleftrightarrow>
     (\<exists>x. a < x \<and> x < n \<and> f x = Some r \<and> (\<forall>y. a < y \<and> y < x \<longrightarrow> f y = None))"
  using first_match_upt [of f "a + 1" n r] by (simp add: Suc_le_eq)

lemma first_match_upt_0:
  "first_match f [0..<n] = Some r \<longleftrightarrow>
     (\<exists>x. x < n \<and> f x = Some r \<and> (\<forall>y. y < x \<longrightarrow> f y = None))"
  using first_match_upt [of f 0 n r] by simp

lemma search_triples_Some:
  "search_triples st target msk = Some res \<longleftrightarrow>
     (\<exists>a b c. a < b \<and> b < c \<and> c < num_gates st \<and>
        triple_gate st (and target msk) msk a b c = Some res \<and>
        (\<forall>a' b' c'. a' < b' \<and> b' < c' \<and> c' < num_gates st \<and>
            (a' < a \<or> (a' = a \<and> (b' < b \<or> (b' = b \<and> c' < c)))) \<longrightarrow>
            triple_gate st (and target msk) msk a' b' c' = None))"
  (is "?L \<longleftrightarrow> ?R")
proof -
  define n where "n = num_gates st"
  define tg where "tg = triple_gate st (and target msk) msk"
  define G where "G = (\<lambda>a b. first_match (\<lambda>c. tg a b c) [b + 1..<n])"
  define F where "F = (\<lambda>a. first_match (\<lambda>b. G a b) [a + 1..<n])"
  have L: "search_triples st target msk = first_match F [0..<n]"
    by (simp only: search_triples_def Let_def F_def G_def tg_def n_def)
  have GN: "G a b = None \<longleftrightarrow> (\<forall>c. b < c \<and> c < n \<longrightarrow> tg a b c = None)" for a b
    by (simp only: G_def first_match_None_iff upt_singles)
  have FN: "F a = None \<longleftrightarrow> (\<forall>b c. a < b \<and> b < c \<and> c < n \<longrightarrow> tg a b c = None)" for a
    by (simp only: F_def G_def first_match_None_iff upt_pairs)
  have GS: "G a b = Some r \<longleftrightarrow>
      (\<exists>c. b < c \<and> c < n \<and> tg a b c = Some r \<and> (\<forall>y. b < y \<and> y < c \<longrightarrow> tg a b y = None))" for a b r
    unfolding G_def by (rule first_match_upt_Suc)
  have FS: "F a = Some r \<longleftrightarrow>
      (\<exists>b. a < b \<and> b < n \<and> G a b = Some r \<and> (\<forall>y. a < y \<and> y < b \<longrightarrow> G a y = None))" for a r
    unfolding F_def by (rule first_match_upt_Suc)
  have S: "first_match F [0..<n] = Some res \<longleftrightarrow>
      (\<exists>a. a < n \<and> F a = Some res \<and> (\<forall>y. y < a \<longrightarrow> F y = None))"
    by (rule first_match_upt_0)
  have "first_match F [0..<n] = Some res \<longleftrightarrow>
     (\<exists>a b c. a < b \<and> b < c \<and> c < n \<and> tg a b c = Some res \<and>
        (\<forall>a' b' c'. a' < b' \<and> b' < c' \<and> c' < n \<and>
            (a' < a \<or> (a' = a \<and> (b' < b \<or> (b' = b \<and> c' < c)))) \<longrightarrow> tg a' b' c' = None))"
    (is "?A \<longleftrightarrow> ?B")
  proof
    assume A: ?A
    from iffD1 [OF S A] obtain a where a: "a < n" "F a = Some res" and a3: "\<And>y. y < a \<Longrightarrow> F y = None"
      by (elim exE conjE) simp
    from iffD1 [OF FS a(2)] obtain b where b: "a < b" "b < n" "G a b = Some res"
      and b4: "\<And>y. a < y \<Longrightarrow> y < b \<Longrightarrow> G a y = None"
      by (elim exE conjE) simp
    from iffD1 [OF GS b(3)] obtain c where c: "b < c" "c < n" "tg a b c = Some res"
      and c4: "\<And>y. b < y \<Longrightarrow> y < c \<Longrightarrow> tg a b y = None"
      by (elim exE conjE) simp
    have E: "tg a' b' c' = None"
      if h: "a' < b'" "b' < c'" "c' < n"
        and e: "a' < a \<or> (a' = a \<and> (b' < b \<or> (b' = b \<and> c' < c)))"
      for a' b' c'
    proof -
      from e consider "a' < a" | "a' = a" "b' < b" | "a' = a" "b' = b" "c' < c" by fast
      then show ?thesis
      proof cases
        case 1
        from iffD1 [OF FN a3 [OF 1]] h show ?thesis by simp
      next
        case 2
        from b4 [of b'] h 2 have "G a b' = None" by simp
        from iffD1 [OF GN this] h 2 show ?thesis by simp
      next
        case 3
        from c4 [of c'] h 3 show ?thesis by simp
      qed
    qed
    show ?B
    proof (rule exI [of _ a], rule exI [of _ b], rule exI [of _ c], intro conjI allI impI)
      fix a' b' c'
      assume "a' < b' \<and> b' < c' \<and> c' < n \<and>
            (a' < a \<or> (a' = a \<and> (b' < b \<or> (b' = b \<and> c' < c))))"
      then show "tg a' b' c' = None" using E [of a' b' c'] by simp
    qed (rule b c)+
  next
    assume ?B
    then obtain a b c where abc: "a < b" "b < c" "c < n" "tg a b c = Some res"
      and before: "\<And>a' b' c'. a' < b' \<Longrightarrow> b' < c' \<Longrightarrow> c' < n \<Longrightarrow>
            (a' < a \<or> (a' = a \<and> (b' < b \<or> (b' = b \<and> c' < c)))) \<Longrightarrow> tg a' b' c' = None"
      by (elim exE conjE) simp
    from abc have bn: "b < n" and an: "a < n" by simp_all
    have "\<forall>y. b < y \<and> y < c \<longrightarrow> tg a b y = None"
    proof (intro allI impI)
      fix y assume y: "b < y \<and> y < c"
      with abc show "tg a b y = None" by (intro before) simp_all
    qed
    with abc have G: "G a b = Some res"
      by (intro iffD2 [OF GS] exI [of _ c]) simp
    have "\<forall>y. a < y \<and> y < b \<longrightarrow> G a y = None"
    proof (intro allI impI iffD2 [OF GN])
      fix y c' assume "a < y \<and> y < b" "y < c' \<and> c' < n"
      then show "tg a y c' = None" by (intro before) simp_all
    qed
    with G abc(1) bn have F: "F a = Some res"
      by (intro iffD2 [OF FS] exI [of _ b]) simp
    have "\<forall>y. y < a \<longrightarrow> F y = None"
    proof (intro allI impI iffD2 [OF FN])
      fix y b' c' assume "y < a" "y < b' \<and> b' < c' \<and> c' < n"
      then show "tg y b' c' = None" by (intro before) simp_all
    qed
    with F an show ?A
      by (intro iffD2 [OF S] exI [of _ a]) simp
  qed
  then show ?thesis
    unfolding L n_def tg_def .
qed

text \<open>
  Claim C9, as amended. For one triple \<open>i < k < m\<close> the search compares 21 tables with the
  masked target, not 24: the 21 entries of \<open>triple_tests\<close>, whose compositions are pairwise
  different and whose tables are all the tables \<open>g (f a b) c\<close> with \<open>f\<close> and \<open>g\<close> among
  AND, OR, XOR and \<open>{a, b}\<close> one of the three pairs of the triple (of these 27, the six left
  out are the second and third bracketing of the three symmetric chains). The search at
  the triple finds nothing exactly when none of the 21 tables is the masked target;
  otherwise it returns the chain of the first entry whose table is. \<open>search_triples\<close> finds
  nothing exactly when every triple \<open>a < b < c\<close> of existing gates finds nothing, and
  otherwise returns what the first such triple, in lexicographic order, finds.
\<close>

theorem triple_tests_21:
  "length (triple_tests ti tk tm i k m) = 21 \<and>
   (i < k \<and> k < m \<longrightarrow> distinct (map snd (triple_tests ti tk tm i k m))) \<and>
   fst ` set (triple_tests ti tk tm i k m) =
     (\<Union>(a, b, c)\<in>{(ti, tk, tm), (ti, tm, tk), (tk, tm, ti)}.
        \<Union>f\<in>{and, or, xor}. \<Union>g\<in>{and, or, xor}. {g (f a b) c}) \<and>
   (triple_gate st mtarget msk i k m = None \<longleftrightarrow>
      (\<forall>n<21. fst (triple_tests (and (table (gates st ! i)) msk) (and (table (gates st ! k)) msk)
                      (and (table (gates st ! m)) msk) i k m ! n) \<noteq> mtarget)) \<and>
   (\<forall>res. triple_gate st mtarget msk i k m = Some res \<longleftrightarrow>
      (\<exists>n<21. fst (triple_tests (and (table (gates st ! i)) msk) (and (table (gates st ! k)) msk)
                      (and (table (gates st ! m)) msk) i k m ! n) = mtarget \<and>
         (\<forall>j<n. fst (triple_tests (and (table (gates st ! i)) msk) (and (table (gates st ! k)) msk)
                      (and (table (gates st ! m)) msk) i k m ! j) \<noteq> mtarget) \<and>
         res = (case triple_tests (and (table (gates st ! i)) msk) (and (table (gates st ! k)) msk)
                      (and (table (gates st ! m)) msk) i k m ! n of
                  (t, c, g1, g2, g3) \<Rightarrow> add_chain st c g1 g2 g3))) \<and>
   (search_triples st target msk = None \<longleftrightarrow>
      (\<forall>a b c. a < b \<and> b < c \<and> c < num_gates st \<longrightarrow>
         triple_gate st (and target msk) msk a b c = None)) \<and>
   (\<forall>res. search_triples st target msk = Some res \<longleftrightarrow>
      (\<exists>a b c. a < b \<and> b < c \<and> c < num_gates st \<and>
         triple_gate st (and target msk) msk a b c = Some res \<and>
         (\<forall>a' b' c'. a' < b' \<and> b' < c' \<and> c' < num_gates st \<and>
             (a' < a \<or> (a' = a \<and> (b' < b \<or> (b' = b \<and> c' < c)))) \<longrightarrow>
             triple_gate st (and target msk) msk a' b' c' = None)))"
proof (intro conjI allI)
  show "length (triple_tests ti tk tm i k m) = 21"
    by (rule length_triple_tests)
  show "i < k \<and> k < m \<longrightarrow> distinct (map snd (triple_tests ti tk tm i k m))"
    by (simp add: triple_tests_def Let_def)
  show "fst ` set (triple_tests ti tk tm i k m) =
     (\<Union>(a, b, c)\<in>{(ti, tk, tm), (ti, tm, tk), (tk, tm, ti)}.
        \<Union>f\<in>{and, or, xor}. \<Union>g\<in>{and, or, xor}. {g (f a b) c})"
    by (simp add: triple_tests_def Let_def ac_simps insert_commute)
qed (rule triple_gate_None triple_gate_Some search_triples_None search_triples_Some)+

text \<open>The theorem at the first triple of the initial state, for the empty table.\<close>

theorem triple_tests_21_witness:
  "(0::nat) < 1 \<and> (1::nat) < 2 \<and> length (triple_tests 1 2 3 0 1 2) = 21 \<and>
   distinct (map snd (triple_tests 1 2 3 0 1 2)) \<and>
   (triple_gate initial_state 0 full_mask 0 1 2 = None) =
     (\<forall>n<21. fst (triple_tests (and (table (gates initial_state ! 0)) full_mask)
                     (and (table (gates initial_state ! 1)) full_mask)
                     (and (table (gates initial_state ! 2)) full_mask) 0 1 2 ! n) \<noteq> 0)"
  using triple_tests_21 [where i = 0 and k = 1 and m = 2 and ti = 1 and tk = 2 and tm = 3
      and st = initial_state and mtarget = 0 and msk = full_mask]
  by simp

text \<open>The 21 tables compared for the first triple of the initial state.\<close>

lemma triple_tests_initial: "triple_tests (and (table (gates initial_state ! 0)) full_mask)
        (and (table (gates initial_state ! Suc 0)) full_mask)
        (and (table (gates initial_state ! 2)) full_mask) 0 (Suc 0) 2 =
     [(0x8080808080808080808080808080808080808080808080808080808080808080, And3, 0, Suc 0, 2),
      (0xF8F8F8F8F8F8F8F8F8F8F8F8F8F8F8F8F8F8F8F8F8F8F8F8F8F8F8F8F8F8F8F8, AndOr, 0, Suc 0, 2),
      (0x7878787878787878787878787878787878787878787878787878787878787878, AndXor, 0, Suc 0, 2),
      (0xFEFEFEFEFEFEFEFEFEFEFEFEFEFEFEFEFEFEFEFEFEFEFEFEFEFEFEFEFEFEFEFE, Or3, 0, Suc 0, 2),
      (0xE0E0E0E0E0E0E0E0E0E0E0E0E0E0E0E0E0E0E0E0E0E0E0E0E0E0E0E0E0E0E0E0, OrAnd, 0, Suc 0, 2),
      (0x1E1E1E1E1E1E1E1E1E1E1E1E1E1E1E1E1E1E1E1E1E1E1E1E1E1E1E1E1E1E1E1E, OrXor, 0, Suc 0, 2),
      (0x9696969696969696969696969696969696969696969696969696969696969696, Xor3, 0, Suc 0, 2),
      (0xF6F6F6F6F6F6F6F6F6F6F6F6F6F6F6F6F6F6F6F6F6F6F6F6F6F6F6F6F6F6F6F6, XorOr, 0, Suc 0, 2),
      (0x6060606060606060606060606060606060606060606060606060606060606060, XorAnd, 0, Suc 0, 2),
      (0xECECECECECECECECECECECECECECECECECECECECECECECECECECECECECECECEC, AndOr, 0, 2, Suc 0),
      (0x6C6C6C6C6C6C6C6C6C6C6C6C6C6C6C6C6C6C6C6C6C6C6C6C6C6C6C6C6C6C6C6C, AndXor, 0, 2, Suc 0),
      (0xEAEAEAEAEAEAEAEAEAEAEAEAEAEAEAEAEAEAEAEAEAEAEAEAEAEAEAEAEAEAEAEA, AndOr, Suc 0, 2, 0),
      (0x6A6A6A6A6A6A6A6A6A6A6A6A6A6A6A6A6A6A6A6A6A6A6A6A6A6A6A6A6A6A6A6A, AndXor, Suc 0, 2, 0),
      (0xDEDEDEDEDEDEDEDEDEDEDEDEDEDEDEDEDEDEDEDEDEDEDEDEDEDEDEDEDEDEDEDE, XorOr, 0, 2, Suc 0),
      (0x4848484848484848484848484848484848484848484848484848484848484848, XorAnd, 0, 2, Suc 0),
      (0xBEBEBEBEBEBEBEBEBEBEBEBEBEBEBEBEBEBEBEBEBEBEBEBEBEBEBEBEBEBEBEBE, XorOr, Suc 0, 2, 0),
      (0x2828282828282828282828282828282828282828282828282828282828282828, XorAnd, Suc 0, 2, 0),
      (0xC8C8C8C8C8C8C8C8C8C8C8C8C8C8C8C8C8C8C8C8C8C8C8C8C8C8C8C8C8C8C8C8, OrAnd, 0, 2, Suc 0),
      (0x3636363636363636363636363636363636363636363636363636363636363636, OrXor, 0, 2, Suc 0),
      (0xA8A8A8A8A8A8A8A8A8A8A8A8A8A8A8A8A8A8A8A8A8A8A8A8A8A8A8A8A8A8A8A8, OrAnd, Suc 0, 2, 0),
      (0x5656565656565656565656565656565656565656565656565656565656565656, OrXor, Suc 0, 2, 0)]"
  by (simp add: triple_tests_def Let_def full_mask_def initial_tables
       del: word_eq_numeral_iff_iszero word_no_log_defs(1,2))

text \<open>
  Claim C9 as stated fails. At the first triple of the initial state the search compares
  all its tables with the empty table and finds nothing; each of the 21 entries is the
  one that answers when the target is its own table; and there are 21 of them, not 24.
\<close>

theorem triple_tests_counterexample: "triple_gate initial_state 0 full_mask 0 1 2 = None \<and>
   map (\<lambda>x. triple_gate initial_state (fst x) full_mask 0 1 2)
     (triple_tests (and (table (gates initial_state ! 0)) full_mask)
        (and (table (gates initial_state ! 1)) full_mask)
        (and (table (gates initial_state ! 2)) full_mask) 0 1 2) =
   map (\<lambda>(t, c, g1, g2, g3). Some (add_chain initial_state c g1 g2 g3))
     (triple_tests (and (table (gates initial_state ! 0)) full_mask)
        (and (table (gates initial_state ! 1)) full_mask)
        (and (table (gates initial_state ! 2)) full_mask) 0 1 2) \<and>
   length (triple_tests (and (table (gates initial_state ! 0)) full_mask)
        (and (table (gates initial_state ! 1)) full_mask)
        (and (table (gates initial_state ! 2)) full_mask) 0 1 2) \<noteq> 24"
  by (simp add: triple_gate_def triple_tests_initial ttable_equals_iff word256_numeral_eq word256_numeral_0
       del: word_eq_numeral_iff_iszero word_no_log_defs(1,2))

subsection \<open>The result of \<^verbatim>\<open>create_circuit\<close>\<close>

text \<open>
  The states of the program: the array holds \<open>MAX_GATES\<close> gates and the budget is within
  it. A state extends another when it keeps its budget, its outputs and all its gates,
  and has at least as many.
\<close>

definition state_ok :: "state \<Rightarrow> bool" where
  "state_ok st \<longleftrightarrow> length (gates st) = MAX_GATES \<and> max_gates st \<le> MAX_GATES"

definition extends :: "state \<Rightarrow> state \<Rightarrow> bool" where
  "extends st st' \<longleftrightarrow>
     num_gates st \<le> num_gates st' \<and> max_gates st' = max_gates st \<and>
     outputs st' = outputs st \<and> length (gates st') = length (gates st) \<and>
     (\<forall>j<num_gates st. gates st' ! j = gates st ! j)"

text \<open>One gate more, with the given table, at the index returned.\<close>

definition appended :: "state \<Rightarrow> state \<Rightarrow> nat \<Rightarrow> ttable \<Rightarrow> bool" where
  "appended st st' r tbl \<longleftrightarrow>
     r = num_gates st \<and> num_gates st' = Suc (num_gates st) \<and> extends st st' \<and>
     state_ok st' \<and> table (gates st' ! r) = tbl"

lemma extends_refl [simp]: "extends st st"
  by (simp add: extends_def)

lemma extends_trans: "extends a b \<Longrightarrow> extends b c \<Longrightarrow> extends a c"
  by (auto simp: extends_def)

lemma extends_ok: "extends st st' \<Longrightarrow> state_ok st \<Longrightarrow> state_ok st'"
  by (simp add: extends_def state_ok_def)

lemma extends_table: "extends st st' \<Longrightarrow> j < num_gates st \<Longrightarrow> table (gates st' ! j) = table (gates st ! j)"
  by (simp add: extends_def)

lemma appended_extends: "appended st st' r tbl \<Longrightarrow> extends st st'"
  by (simp add: appended_def)

lemma add_gate_cases:
  assumes "add_gate st ty tbl gid1 gid2 = Inr (r, st')" "state_ok st"
  shows "(r = NO_GATE \<and> st' = st) \<or>
         (r \<noteq> NO_GATE \<and> gid1 \<noteq> NO_GATE \<and> (gid2 \<noteq> NO_GATE \<or> ty = NOT) \<and> appended st st' r tbl)"
proof (cases "gid1 = NO_GATE \<or> (gid2 = NO_GATE \<and> ty \<noteq> NOT) \<or> max_gates st \<le> num_gates st")
  case True
  with assms show ?thesis by (auto simp: add_gate_def split: if_splits)
next
  case False
  with assms have n: "num_gates st < 500" by (simp add: state_ok_def MAX_GATES_def)
  then have a: "u64_add (num_gates st) (Suc 0) = Suc (num_gates st)"
    and s: "u64_sub (Suc (num_gates st)) (Suc 0) = num_gates st"
    by (simp_all add: u64_add_Suc u64_sub_Suc)
  from n have ng: "num_gates st \<noteq> NO_GATE" by (simp add: NO_GATE_def)
  from n assms have len: "num_gates st < length (gates st)" by (simp add: state_ok_def MAX_GATES_def)
  from False assms(1) have "r = num_gates st \<and> st' = st\<lparr>gates := (gates st)[num_gates st :=
                        \<lparr>type = ty, table = tbl, in1 = gid1, in2 = gid2\<rparr>],
                      num_gates := Suc (num_gates st)\<rparr>"
    by (auto simp: add_gate_def Let_def a s split: if_splits)
  with False ng len assms(2) show ?thesis
    by (auto simp: appended_def extends_def state_ok_def)
qed

lemma add_gate_extends:
  "add_gate st ty tbl gid1 gid2 = Inr (r, st') \<Longrightarrow> state_ok st \<Longrightarrow> extends st st'"
  using add_gate_cases appended_extends by fastforce


text \<open>
  The result of a composer: the state is extended, and a gate returned is the last one
  of the new state, with the given table.
\<close>

definition built :: "state \<Rightarrow> state \<Rightarrow> nat \<Rightarrow> ttable \<Rightarrow> bool" where
  "built st st' r tbl \<longleftrightarrow>
     extends st st' \<and>
     (r \<noteq> NO_GATE \<longrightarrow> num_gates st < num_gates st' \<and> r = num_gates st' - 1 \<and>
        table (gates st' ! r) = tbl)"

lemma appended_built: "appended st st' r tbl \<Longrightarrow> built st st' r tbl"
  by (auto simp: appended_def built_def)

lemma add_not_gate_cases:
  assumes "add_not_gate st g = Inr (r, st')" "state_ok st"
  shows "(r = NO_GATE \<and> st' = st) \<or>
         (r \<noteq> NO_GATE \<and> g \<noteq> NO_GATE \<and> appended st st' r (not (table (gates st ! g))))"
  using add_gate_cases [OF assms [unfolded add_not_gate_def]] by auto

lemma add_and_gate_cases:
  assumes "add_and_gate st a b = Inr (r, st')" "state_ok st"
  shows "(r = NO_GATE \<and> st' = st) \<or>
         (r \<noteq> NO_GATE \<and> a \<noteq> NO_GATE \<and> b \<noteq> NO_GATE \<and>
          appended st st' r (and (table (gates st ! a)) (table (gates st ! b))))"
  using add_gate_cases [OF assms [unfolded add_and_gate_def]] by auto

lemma add_or_gate_cases:
  assumes "add_or_gate st a b = Inr (r, st')" "state_ok st"
  shows "(r = NO_GATE \<and> st' = st) \<or>
         (r \<noteq> NO_GATE \<and> a \<noteq> NO_GATE \<and> b \<noteq> NO_GATE \<and>
          appended st st' r (or (table (gates st ! a)) (table (gates st ! b))))"
  using add_gate_cases [OF assms [unfolded add_or_gate_def]] by auto

lemma add_xor_gate_cases:
  assumes "add_xor_gate st a b = Inr (r, st')" "state_ok st"
  shows "(r = NO_GATE \<and> st' = st) \<or>
         (r \<noteq> NO_GATE \<and> a \<noteq> NO_GATE \<and> b \<noteq> NO_GATE \<and>
          appended st st' r (xor (table (gates st ! a)) (table (gates st ! b))))"
  using add_gate_cases [OF assms [unfolded add_xor_gate_def]] by auto

text \<open>Two appended gates in a row.\<close>

lemma appended_twice:
  assumes "appended st st1 g t1" "appended st1 st2 r t2"
  shows "built st st2 r t2"
  using assms by (auto simp: appended_def built_def intro: extends_trans)

lemma appended_keeps:
  "appended st st1 g t1 \<Longrightarrow> c < num_gates st \<Longrightarrow> table (gates st1 ! c) = table (gates st ! c)"
  by (simp add: appended_def extends_def)

lemma appended_self: "appended st st1 g t1 \<Longrightarrow> table (gates st1 ! g) = t1"
  by (auto simp: appended_def)

lemma appended_ok: "appended st st1 g t1 \<Longrightarrow> state_ok st1"
  by (simp add: appended_def)

lemma built_none: "built st st NO_GATE t"
  by (simp add: built_def)

lemma chain_built:
  assumes c: "(case F of Inl e \<Rightarrow> Inl e | Inr (g, st1) \<Rightarrow> G st1 g) = Inr (r, st')"
    and ok: "state_ok st"
    and F: "\<And>g st1. F = Inr (g, st1) \<Longrightarrow>
              (g = NO_GATE \<and> st1 = st) \<or> (g \<noteq> NO_GATE \<and> appended st st1 g t1)"
    and G: "\<And>g st1. state_ok st1 \<Longrightarrow> G st1 g = Inr (r, st') \<Longrightarrow>
              (r = NO_GATE \<and> st' = st1) \<or>
              (r \<noteq> NO_GATE \<and> g \<noteq> NO_GATE \<and> appended st1 st' r (h st1 g))"
    and H: "\<And>g st1. appended st st1 g t1 \<Longrightarrow> h st1 g = t2"
  shows "built st st' r t2"
proof -
  from c obtain g st1 where 1: "F = Inr (g, st1)" and 2: "G st1 g = Inr (r, st')"
    by (auto split: sum.splits)
  from F [OF 1] show ?thesis
  proof
    assume *: "g = NO_GATE \<and> st1 = st"
    with G [OF _ 2] ok show ?thesis by (auto simp: built_def)
  next
    assume *: "g \<noteq> NO_GATE \<and> appended st st1 g t1"
    then have ok1: "state_ok st1" by (auto dest: appended_ok)
    from G [OF ok1 2] show ?thesis
    proof
      assume "r = NO_GATE \<and> st' = st1"
      with * show ?thesis by (auto simp: built_def dest: appended_extends)
    next
      assume "r \<noteq> NO_GATE \<and> g \<noteq> NO_GATE \<and> appended st1 st' r (h st1 g)"
      with * H [of st1 g] show ?thesis by (auto intro: appended_twice)
    qed
  qed
qed

lemma add_nand_gate_built:
  assumes "add_nand_gate st a b = Inr (r, st')" "state_ok st"
  shows "built st st' r (not (and (table (gates st ! a)) (table (gates st ! b))))"
proof (rule chain_built [where G = "\<lambda>st1 g. add_not_gate st1 g"
        and h = "\<lambda>st1 g. not (table (gates st1 ! g))", OF assms [unfolded add_nand_gate_def]])
  show "\<And>g st1. add_and_gate st a b = Inr (g, st1) \<Longrightarrow>
      (g = NO_GATE \<and> st1 = st) \<or>
      (g \<noteq> NO_GATE \<and> appended st st1 g (and (table (gates st ! a)) (table (gates st ! b))))"
    using add_and_gate_cases [OF _ assms(2)] by blast
  show "\<And>g st1. state_ok st1 \<Longrightarrow> add_not_gate st1 g = Inr (r, st') \<Longrightarrow>
      (r = NO_GATE \<and> st' = st1) \<or>
      (r \<noteq> NO_GATE \<and> g \<noteq> NO_GATE \<and> appended st1 st' r (not (table (gates st1 ! g))))"
    using add_not_gate_cases by blast
  show "\<And>g st1. appended st st1 g (and (table (gates st ! a)) (table (gates st ! b))) \<Longrightarrow>
      not (table (gates st1 ! g)) = not (and (table (gates st ! a)) (table (gates st ! b)))"
    by (simp add: appended_self)
qed

lemma add_nor_gate_built:
  assumes "add_nor_gate st a b = Inr (r, st')" "state_ok st"
  shows "built st st' r (not (or (table (gates st ! a)) (table (gates st ! b))))"
proof (rule chain_built [where G = "\<lambda>st1 g. add_not_gate st1 g"
        and h = "\<lambda>st1 g. not (table (gates st1 ! g))", OF assms [unfolded add_nor_gate_def]])
  show "\<And>g st1. add_or_gate st a b = Inr (g, st1) \<Longrightarrow>
      (g = NO_GATE \<and> st1 = st) \<or>
      (g \<noteq> NO_GATE \<and> appended st st1 g (or (table (gates st ! a)) (table (gates st ! b))))"
    using add_or_gate_cases [OF _ assms(2)] by blast
  show "\<And>g st1. state_ok st1 \<Longrightarrow> add_not_gate st1 g = Inr (r, st') \<Longrightarrow>
      (r = NO_GATE \<and> st' = st1) \<or>
      (r \<noteq> NO_GATE \<and> g \<noteq> NO_GATE \<and> appended st1 st' r (not (table (gates st1 ! g))))"
    using add_not_gate_cases by blast
  show "\<And>g st1. appended st st1 g (or (table (gates st ! a)) (table (gates st ! b))) \<Longrightarrow>
      not (table (gates st1 ! g)) = not (or (table (gates st ! a)) (table (gates st ! b)))"
    by (simp add: appended_self)
qed

lemma add_xnor_gate_built:
  assumes "add_xnor_gate st a b = Inr (r, st')" "state_ok st"
  shows "built st st' r (not (xor (table (gates st ! a)) (table (gates st ! b))))"
proof (rule chain_built [where G = "\<lambda>st1 g. add_not_gate st1 g"
        and h = "\<lambda>st1 g. not (table (gates st1 ! g))", OF assms [unfolded add_xnor_gate_def]])
  show "\<And>g st1. add_xor_gate st a b = Inr (g, st1) \<Longrightarrow>
      (g = NO_GATE \<and> st1 = st) \<or>
      (g \<noteq> NO_GATE \<and> appended st st1 g (xor (table (gates st ! a)) (table (gates st ! b))))"
    using add_xor_gate_cases [OF _ assms(2)] by blast
  show "\<And>g st1. state_ok st1 \<Longrightarrow> add_not_gate st1 g = Inr (r, st') \<Longrightarrow>
      (r = NO_GATE \<and> st' = st1) \<or>
      (r \<noteq> NO_GATE \<and> g \<noteq> NO_GATE \<and> appended st1 st' r (not (table (gates st1 ! g))))"
    using add_not_gate_cases by blast
  show "\<And>g st1. appended st st1 g (xor (table (gates st ! a)) (table (gates st ! b))) \<Longrightarrow>
      not (table (gates st1 ! g)) = not (xor (table (gates st ! a)) (table (gates st ! b)))"
    by (simp add: appended_self)
qed

lemma add_or_not_gate_built:
  assumes "add_or_not_gate st a b = Inr (r, st')" "state_ok st" "b < num_gates st"
  shows "built st st' r (or (not (table (gates st ! a))) (table (gates st ! b)))"
proof (rule chain_built [where G = "\<lambda>st1 g. add_or_gate st1 g b"
        and h = "\<lambda>st1 g. or (table (gates st1 ! g)) (table (gates st1 ! b))",
        OF assms(1) [unfolded add_or_not_gate_def] assms(2)])
  show "\<And>g st1. add_not_gate st a = Inr (g, st1) \<Longrightarrow>
      (g = NO_GATE \<and> st1 = st) \<or>
      (g \<noteq> NO_GATE \<and> appended st st1 g (not (table (gates st ! a))))"
    using add_not_gate_cases [OF _ assms(2)] by blast
  show "\<And>g st1. state_ok st1 \<Longrightarrow> add_or_gate st1 g b = Inr (r, st') \<Longrightarrow>
      (r = NO_GATE \<and> st' = st1) \<or>
      (r \<noteq> NO_GATE \<and> g \<noteq> NO_GATE \<and>
       appended st1 st' r (or (table (gates st1 ! g)) (table (gates st1 ! b))))"
    using add_or_gate_cases by blast
  show "\<And>g st1. appended st st1 g (not (table (gates st ! a))) \<Longrightarrow>
      or (table (gates st1 ! g)) (table (gates st1 ! b)) =
      or (not (table (gates st ! a))) (table (gates st ! b))"
    using assms(3) by (simp add: appended_self appended_keeps)
qed

lemma add_and_not_gate_built:
  assumes "add_and_not_gate st a b = Inr (r, st')" "state_ok st" "b < num_gates st"
  shows "built st st' r (and (not (table (gates st ! a))) (table (gates st ! b)))"
proof (rule chain_built [where G = "\<lambda>st1 g. add_and_gate st1 g b"
        and h = "\<lambda>st1 g. and (table (gates st1 ! g)) (table (gates st1 ! b))",
        OF assms(1) [unfolded add_and_not_gate_def] assms(2)])
  show "\<And>g st1. add_not_gate st a = Inr (g, st1) \<Longrightarrow>
      (g = NO_GATE \<and> st1 = st) \<or>
      (g \<noteq> NO_GATE \<and> appended st st1 g (not (table (gates st ! a))))"
    using add_not_gate_cases [OF _ assms(2)] by blast
  show "\<And>g st1. state_ok st1 \<Longrightarrow> add_and_gate st1 g b = Inr (r, st') \<Longrightarrow>
      (r = NO_GATE \<and> st' = st1) \<or>
      (r \<noteq> NO_GATE \<and> g \<noteq> NO_GATE \<and>
       appended st1 st' r (and (table (gates st1 ! g)) (table (gates st1 ! b))))"
    using add_and_gate_cases by blast
  show "\<And>g st1. appended st st1 g (not (table (gates st ! a))) \<Longrightarrow>
      and (table (gates st1 ! g)) (table (gates st1 ! b)) =
      and (not (table (gates st ! a))) (table (gates st ! b))"
    using assms(3) by (simp add: appended_self appended_keeps)
qed

lemma add_or_3_gate_built:
  assumes "add_or_3_gate st a b c = Inr (r, st')" "state_ok st" "c < num_gates st"
  shows "built st st' r (or (or (table (gates st ! a)) (table (gates st ! b))) (table (gates st ! c)))"
proof (rule chain_built [where G = "\<lambda>st1 g. add_or_gate st1 g c"
        and h = "\<lambda>st1 g. or (table (gates st1 ! g)) (table (gates st1 ! c))",
        OF assms(1) [unfolded add_or_3_gate_def] assms(2)])
  show "\<And>g st1. add_or_gate st a b = Inr (g, st1) \<Longrightarrow>
      (g = NO_GATE \<and> st1 = st) \<or>
      (g \<noteq> NO_GATE \<and> appended st st1 g (or (table (gates st ! a)) (table (gates st ! b))))"
    using add_or_gate_cases [OF _ assms(2)] by blast
  show "\<And>g st1. state_ok st1 \<Longrightarrow> add_or_gate st1 g c = Inr (r, st') \<Longrightarrow>
      (r = NO_GATE \<and> st' = st1) \<or>
      (r \<noteq> NO_GATE \<and> g \<noteq> NO_GATE \<and>
       appended st1 st' r (or (table (gates st1 ! g)) (table (gates st1 ! c))))"
    using add_or_gate_cases by blast
  show "\<And>g st1. appended st st1 g (or (table (gates st ! a)) (table (gates st ! b))) \<Longrightarrow>
      or (table (gates st1 ! g)) (table (gates st1 ! c)) =
      or (or (table (gates st ! a)) (table (gates st ! b))) (table (gates st ! c))"
    using assms(3) by (simp add: appended_self appended_keeps)
qed

lemma add_and_3_gate_built:
  assumes "add_and_3_gate st a b c = Inr (r, st')" "state_ok st" "c < num_gates st"
  shows "built st st' r (and (and (table (gates st ! a)) (table (gates st ! b))) (table (gates st ! c)))"
proof (rule chain_built [where G = "\<lambda>st1 g. add_and_gate st1 g c"
        and h = "\<lambda>st1 g. and (table (gates st1 ! g)) (table (gates st1 ! c))",
        OF assms(1) [unfolded add_and_3_gate_def] assms(2)])
  show "\<And>g st1. add_and_gate st a b = Inr (g, st1) \<Longrightarrow>
      (g = NO_GATE \<and> st1 = st) \<or>
      (g \<noteq> NO_GATE \<and> appended st st1 g (and (table (gates st ! a)) (table (gates st ! b))))"
    using add_and_gate_cases [OF _ assms(2)] by blast
  show "\<And>g st1. state_ok st1 \<Longrightarrow> add_and_gate st1 g c = Inr (r, st') \<Longrightarrow>
      (r = NO_GATE \<and> st' = st1) \<or>
      (r \<noteq> NO_GATE \<and> g \<noteq> NO_GATE \<and>
       appended st1 st' r (and (table (gates st1 ! g)) (table (gates st1 ! c))))"
    using add_and_gate_cases by blast
  show "\<And>g st1. appended st st1 g (and (table (gates st ! a)) (table (gates st ! b))) \<Longrightarrow>
      and (table (gates st1 ! g)) (table (gates st1 ! c)) =
      and (and (table (gates st ! a)) (table (gates st ! b))) (table (gates st ! c))"
    using assms(3) by (simp add: appended_self appended_keeps)
qed

lemma add_xor_3_gate_built:
  assumes "add_xor_3_gate st a b c = Inr (r, st')" "state_ok st" "c < num_gates st"
  shows "built st st' r (xor (xor (table (gates st ! a)) (table (gates st ! b))) (table (gates st ! c)))"
proof (rule chain_built [where G = "\<lambda>st1 g. add_xor_gate st1 g c"
        and h = "\<lambda>st1 g. xor (table (gates st1 ! g)) (table (gates st1 ! c))",
        OF assms(1) [unfolded add_xor_3_gate_def] assms(2)])
  show "\<And>g st1. add_xor_gate st a b = Inr (g, st1) \<Longrightarrow>
      (g = NO_GATE \<and> st1 = st) \<or>
      (g \<noteq> NO_GATE \<and> appended st st1 g (xor (table (gates st ! a)) (table (gates st ! b))))"
    using add_xor_gate_cases [OF _ assms(2)] by blast
  show "\<And>g st1. state_ok st1 \<Longrightarrow> add_xor_gate st1 g c = Inr (r, st') \<Longrightarrow>
      (r = NO_GATE \<and> st' = st1) \<or>
      (r \<noteq> NO_GATE \<and> g \<noteq> NO_GATE \<and>
       appended st1 st' r (xor (table (gates st1 ! g)) (table (gates st1 ! c))))"
    using add_xor_gate_cases by blast
  show "\<And>g st1. appended st st1 g (xor (table (gates st ! a)) (table (gates st ! b))) \<Longrightarrow>
      xor (table (gates st1 ! g)) (table (gates st1 ! c)) =
      xor (xor (table (gates st ! a)) (table (gates st ! b))) (table (gates st ! c))"
    using assms(3) by (simp add: appended_self appended_keeps)
qed

lemma add_and_or_gate_built:
  assumes "add_and_or_gate st a b c = Inr (r, st')" "state_ok st" "c < num_gates st"
  shows "built st st' r (or (and (table (gates st ! a)) (table (gates st ! b))) (table (gates st ! c)))"
proof (rule chain_built [where G = "\<lambda>st1 g. add_or_gate st1 g c"
        and h = "\<lambda>st1 g. or (table (gates st1 ! g)) (table (gates st1 ! c))",
        OF assms(1) [unfolded add_and_or_gate_def] assms(2)])
  show "\<And>g st1. add_and_gate st a b = Inr (g, st1) \<Longrightarrow>
      (g = NO_GATE \<and> st1 = st) \<or>
      (g \<noteq> NO_GATE \<and> appended st st1 g (and (table (gates st ! a)) (table (gates st ! b))))"
    using add_and_gate_cases [OF _ assms(2)] by blast
  show "\<And>g st1. state_ok st1 \<Longrightarrow> add_or_gate st1 g c = Inr (r, st') \<Longrightarrow>
      (r = NO_GATE \<and> st' = st1) \<or>
      (r \<noteq> NO_GATE \<and> g \<noteq> NO_GATE \<and>
       appended st1 st' r (or (table (gates st1 ! g)) (table (gates st1 ! c))))"
    using add_or_gate_cases by blast
  show "\<And>g st1. appended st st1 g (and (table (gates st ! a)) (table (gates st ! b))) \<Longrightarrow>
      or (table (gates st1 ! g)) (table (gates st1 ! c)) =
      or (and (table (gates st ! a)) (table (gates st ! b))) (table (gates st ! c))"
    using assms(3) by (simp add: appended_self appended_keeps)
qed

lemma add_and_xor_gate_built:
  assumes "add_and_xor_gate st a b c = Inr (r, st')" "state_ok st" "c < num_gates st"
  shows "built st st' r (xor (and (table (gates st ! a)) (table (gates st ! b))) (table (gates st ! c)))"
proof (rule chain_built [where G = "\<lambda>st1 g. add_xor_gate st1 g c"
        and h = "\<lambda>st1 g. xor (table (gates st1 ! g)) (table (gates st1 ! c))",
        OF assms(1) [unfolded add_and_xor_gate_def] assms(2)])
  show "\<And>g st1. add_and_gate st a b = Inr (g, st1) \<Longrightarrow>
      (g = NO_GATE \<and> st1 = st) \<or>
      (g \<noteq> NO_GATE \<and> appended st st1 g (and (table (gates st ! a)) (table (gates st ! b))))"
    using add_and_gate_cases [OF _ assms(2)] by blast
  show "\<And>g st1. state_ok st1 \<Longrightarrow> add_xor_gate st1 g c = Inr (r, st') \<Longrightarrow>
      (r = NO_GATE \<and> st' = st1) \<or>
      (r \<noteq> NO_GATE \<and> g \<noteq> NO_GATE \<and>
       appended st1 st' r (xor (table (gates st1 ! g)) (table (gates st1 ! c))))"
    using add_xor_gate_cases by blast
  show "\<And>g st1. appended st st1 g (and (table (gates st ! a)) (table (gates st ! b))) \<Longrightarrow>
      xor (table (gates st1 ! g)) (table (gates st1 ! c)) =
      xor (and (table (gates st ! a)) (table (gates st ! b))) (table (gates st ! c))"
    using assms(3) by (simp add: appended_self appended_keeps)
qed

lemma add_xor_or_gate_built:
  assumes "add_xor_or_gate st a b c = Inr (r, st')" "state_ok st" "c < num_gates st"
  shows "built st st' r (or (xor (table (gates st ! a)) (table (gates st ! b))) (table (gates st ! c)))"
proof (rule chain_built [where G = "\<lambda>st1 g. add_or_gate st1 g c"
        and h = "\<lambda>st1 g. or (table (gates st1 ! g)) (table (gates st1 ! c))",
        OF assms(1) [unfolded add_xor_or_gate_def] assms(2)])
  show "\<And>g st1. add_xor_gate st a b = Inr (g, st1) \<Longrightarrow>
      (g = NO_GATE \<and> st1 = st) \<or>
      (g \<noteq> NO_GATE \<and> appended st st1 g (xor (table (gates st ! a)) (table (gates st ! b))))"
    using add_xor_gate_cases [OF _ assms(2)] by blast
  show "\<And>g st1. state_ok st1 \<Longrightarrow> add_or_gate st1 g c = Inr (r, st') \<Longrightarrow>
      (r = NO_GATE \<and> st' = st1) \<or>
      (r \<noteq> NO_GATE \<and> g \<noteq> NO_GATE \<and>
       appended st1 st' r (or (table (gates st1 ! g)) (table (gates st1 ! c))))"
    using add_or_gate_cases by blast
  show "\<And>g st1. appended st st1 g (xor (table (gates st ! a)) (table (gates st ! b))) \<Longrightarrow>
      or (table (gates st1 ! g)) (table (gates st1 ! c)) =
      or (xor (table (gates st ! a)) (table (gates st ! b))) (table (gates st ! c))"
    using assms(3) by (simp add: appended_self appended_keeps)
qed

lemma add_xor_and_gate_built:
  assumes "add_xor_and_gate st a b c = Inr (r, st')" "state_ok st" "c < num_gates st"
  shows "built st st' r (and (xor (table (gates st ! a)) (table (gates st ! b))) (table (gates st ! c)))"
proof (rule chain_built [where G = "\<lambda>st1 g. add_and_gate st1 g c"
        and h = "\<lambda>st1 g. and (table (gates st1 ! g)) (table (gates st1 ! c))",
        OF assms(1) [unfolded add_xor_and_gate_def] assms(2)])
  show "\<And>g st1. add_xor_gate st a b = Inr (g, st1) \<Longrightarrow>
      (g = NO_GATE \<and> st1 = st) \<or>
      (g \<noteq> NO_GATE \<and> appended st st1 g (xor (table (gates st ! a)) (table (gates st ! b))))"
    using add_xor_gate_cases [OF _ assms(2)] by blast
  show "\<And>g st1. state_ok st1 \<Longrightarrow> add_and_gate st1 g c = Inr (r, st') \<Longrightarrow>
      (r = NO_GATE \<and> st' = st1) \<or>
      (r \<noteq> NO_GATE \<and> g \<noteq> NO_GATE \<and>
       appended st1 st' r (and (table (gates st1 ! g)) (table (gates st1 ! c))))"
    using add_and_gate_cases by blast
  show "\<And>g st1. appended st st1 g (xor (table (gates st ! a)) (table (gates st ! b))) \<Longrightarrow>
      and (table (gates st1 ! g)) (table (gates st1 ! c)) =
      and (xor (table (gates st ! a)) (table (gates st ! b))) (table (gates st ! c))"
    using assms(3) by (simp add: appended_self appended_keeps)
qed

lemma add_or_and_gate_built:
  assumes "add_or_and_gate st a b c = Inr (r, st')" "state_ok st" "c < num_gates st"
  shows "built st st' r (and (or (table (gates st ! a)) (table (gates st ! b))) (table (gates st ! c)))"
proof (rule chain_built [where G = "\<lambda>st1 g. add_and_gate st1 g c"
        and h = "\<lambda>st1 g. and (table (gates st1 ! g)) (table (gates st1 ! c))",
        OF assms(1) [unfolded add_or_and_gate_def] assms(2)])
  show "\<And>g st1. add_or_gate st a b = Inr (g, st1) \<Longrightarrow>
      (g = NO_GATE \<and> st1 = st) \<or>
      (g \<noteq> NO_GATE \<and> appended st st1 g (or (table (gates st ! a)) (table (gates st ! b))))"
    using add_or_gate_cases [OF _ assms(2)] by blast
  show "\<And>g st1. state_ok st1 \<Longrightarrow> add_and_gate st1 g c = Inr (r, st') \<Longrightarrow>
      (r = NO_GATE \<and> st' = st1) \<or>
      (r \<noteq> NO_GATE \<and> g \<noteq> NO_GATE \<and>
       appended st1 st' r (and (table (gates st1 ! g)) (table (gates st1 ! c))))"
    using add_and_gate_cases by blast
  show "\<And>g st1. appended st st1 g (or (table (gates st ! a)) (table (gates st ! b))) \<Longrightarrow>
      and (table (gates st1 ! g)) (table (gates st1 ! c)) =
      and (or (table (gates st ! a)) (table (gates st ! b))) (table (gates st ! c))"
    using assms(3) by (simp add: appended_self appended_keeps)
qed

lemma add_or_xor_gate_built:
  assumes "add_or_xor_gate st a b c = Inr (r, st')" "state_ok st" "c < num_gates st"
  shows "built st st' r (xor (or (table (gates st ! a)) (table (gates st ! b))) (table (gates st ! c)))"
proof (rule chain_built [where G = "\<lambda>st1 g. add_xor_gate st1 g c"
        and h = "\<lambda>st1 g. xor (table (gates st1 ! g)) (table (gates st1 ! c))",
        OF assms(1) [unfolded add_or_xor_gate_def] assms(2)])
  show "\<And>g st1. add_or_gate st a b = Inr (g, st1) \<Longrightarrow>
      (g = NO_GATE \<and> st1 = st) \<or>
      (g \<noteq> NO_GATE \<and> appended st st1 g (or (table (gates st ! a)) (table (gates st ! b))))"
    using add_or_gate_cases [OF _ assms(2)] by blast
  show "\<And>g st1. state_ok st1 \<Longrightarrow> add_xor_gate st1 g c = Inr (r, st') \<Longrightarrow>
      (r = NO_GATE \<and> st' = st1) \<or>
      (r \<noteq> NO_GATE \<and> g \<noteq> NO_GATE \<and>
       appended st1 st' r (xor (table (gates st1 ! g)) (table (gates st1 ! c))))"
    using add_xor_gate_cases by blast
  show "\<And>g st1. appended st st1 g (or (table (gates st ! a)) (table (gates st ! b))) \<Longrightarrow>
      xor (table (gates st1 ! g)) (table (gates st1 ! c)) =
      xor (or (table (gates st ! a)) (table (gates st ! b))) (table (gates st ! c))"
    using assms(3) by (simp add: appended_self appended_keeps)
qed


lemma add_not_gate_built:
  "add_not_gate st a = Inr (r, st') \<Longrightarrow> state_ok st \<Longrightarrow> built st st' r (not (table (gates st ! a)))"
  using add_not_gate_cases [of st a r st'] by (auto intro: appended_built built_none)

lemma add_and_gate_built:
  "add_and_gate st a b = Inr (r, st') \<Longrightarrow> state_ok st \<Longrightarrow>
     built st st' r (and (table (gates st ! a)) (table (gates st ! b)))"
  using add_and_gate_cases [of st a b r st'] by (auto intro: appended_built built_none)

lemma add_or_gate_built:
  "add_or_gate st a b = Inr (r, st') \<Longrightarrow> state_ok st \<Longrightarrow>
     built st st' r (or (table (gates st ! a)) (table (gates st ! b)))"
  using add_or_gate_cases [of st a b r st'] by (auto intro: appended_built built_none)

lemma add_xor_gate_built:
  "add_xor_gate st a b = Inr (r, st') \<Longrightarrow> state_ok st \<Longrightarrow>
     built st st' r (xor (table (gates st ! a)) (table (gates st ! b)))"
  using add_xor_gate_cases [of st a b r st'] by (auto intro: appended_built built_none)

subsection \<open>Masked equality\<close>

lemma mask_and: "and (and a b) m = and (and a m) (and b m)" for a b m :: ttable
  by (rule bit_eqI) (auto simp: bit_and_iff)

lemma mask_or: "and (or a b) m = or (and a m) (and b m)" for a b m :: ttable
  by (rule bit_eqI) (auto simp: bit_and_iff bit_or_iff)

lemma mask_xor: "and (xor a b) m = xor (and a m) (and b m)" for a b m :: ttable
  by (rule bit_eqI) (auto simp: bit_and_iff bit_xor_iff)

lemma ttable_equals_mask_iff: "ttable_equals_mask a b m \<longleftrightarrow> and a m = and b m"
  by (simp add: ttable_equals_mask_def testz_def Let_def mask_xor xor_eq_0_iff)

text \<open>What a search step promises about the result of the composer it calls.\<close>

definition hit :: "state \<Rightarrow> ttable \<Rightarrow> ttable \<Rightarrow> error + nat \<times> state \<Rightarrow> bool" where
  "hit st target msk res \<longleftrightarrow>
     (\<forall>r st'. res = Inr (r, st') \<longrightarrow>
        extends st st' \<and>
        (r \<noteq> NO_GATE \<longrightarrow> num_gates st < num_gates st' \<and> r = num_gates st' - 1 \<and>
           ttable_equals_mask (table (gates st' ! r)) target msk))"

lemma built_hit:
  assumes "\<And>r st'. res = Inr (r, st') \<Longrightarrow> built st st' r tbl"
    and "and tbl msk = and target msk"
  shows "hit st target msk res"
  using assms by (auto simp: hit_def built_def ttable_equals_mask_iff)

lemma find_inverse_gate_hit:
  assumes "find_inverse_gate st target msk = Some res" "state_ok st"
  shows "hit st target msk res"
proof -
  from first_match_SomeD [OF assms(1) [unfolded find_inverse_gate_def]]
  obtain i where i: "ttable_equals_mask target (not (table (gates st ! i))) msk"
    and res: "res = add_not_gate st i"
    by (auto split: if_splits)
  show ?thesis
  proof (rule built_hit)
    show "\<And>r st'. res = Inr (r, st') \<Longrightarrow> built st st' r (not (table (gates st ! i)))"
      unfolding res using assms(2) by (simp add: add_not_gate_built)
    show "and (not (table (gates st ! i))) msk = and target msk"
      using i by (simp add: ttable_equals_mask_iff)
  qed
qed

lemma pair_gate_hit:
  assumes "pair_gate st (and target msk) msk i k = Some res" "state_ok st"
  shows "hit st target msk res"
proof -
  let ?a = "table (gates st ! i)" and ?b = "table (gates st ! k)"
  from assms(1) consider
      "and target msk = or (and ?a msk) (and ?b msk)" "res = add_or_gate st i k"
    | "and target msk = and (and ?a msk) (and ?b msk)" "res = add_and_gate st i k"
    | "and target msk = xor (and ?a msk) (and ?b msk)" "res = add_xor_gate st i k"
    by (auto simp: pair_gate_def Let_def ttable_equals_iff split: if_splits)
  then show ?thesis
  proof cases
    case 1
    show ?thesis
    proof (rule built_hit [where tbl = "or ?a ?b"])
      show "and (or ?a ?b) msk = and target msk" unfolding 1(1) by (rule mask_or)
    qed (simp add: 1(2) add_or_gate_built assms(2))
  next
    case 2
    show ?thesis
    proof (rule built_hit [where tbl = "and ?a ?b"])
      show "and (and ?a ?b) msk = and target msk" unfolding 2(1) by (rule mask_and)
    qed (simp add: 2(2) add_and_gate_built assms(2))
  next
    case 3
    show ?thesis
    proof (rule built_hit [where tbl = "xor ?a ?b"])
      show "and (xor ?a ?b) msk = and target msk" unfolding 3(1) by (rule mask_xor)
    qed (simp add: 3(2) add_xor_gate_built assms(2))
  qed
qed

lemma search_pairs_hit:
  assumes "search_pairs st target msk = Some res" "state_ok st"
  shows "hit st target msk res"
proof -
  from assms(1) obtain i k where "pair_gate st (and target msk) msk i k = Some res"
    unfolding search_pairs_def Let_def
    by (blast dest: first_match_SomeD)
  then show ?thesis using assms(2) by (rule pair_gate_hit)
qed


lemma hit_from_built:
  assumes "ttable_equals_mask target tbl msk"
    and "\<And>r st'. res = Inr (r, st') \<Longrightarrow> built st st' r tbl"
  shows "hit st target msk res"
proof (rule built_hit [where tbl = tbl])
  show "and tbl msk = and target msk"
    using assms(1) unfolding ttable_equals_mask_iff by (rule sym)
qed (rule assms(2))

lemma pair_not_gate_hit:
  assumes "pair_not_gate st target msk i k = Some res" "state_ok st"
    and ik: "i < num_gates st" "k < num_gates st"
  shows "hit st target msk res"
proof -
  let ?a = "table (gates st ! i)" and ?b = "table (gates st ! k)"
  from assms(1) consider
      "ttable_equals_mask target (not (or ?a ?b)) msk" "res = add_nor_gate st i k"
    | "ttable_equals_mask target (not (and ?a ?b)) msk" "res = add_nand_gate st i k"
    | "ttable_equals_mask target (not (xor ?a ?b)) msk" "res = add_xnor_gate st i k"
    | "ttable_equals_mask target (or (not ?a) ?b) msk" "res = add_or_not_gate st i k"
    | "ttable_equals_mask target (or (not ?b) ?a) msk" "res = add_or_not_gate st k i"
    | "ttable_equals_mask target (and (not ?a) ?b) msk" "res = add_and_not_gate st i k"
    | "ttable_equals_mask target (and (not ?b) ?a) msk" "res = add_and_not_gate st k i"
    unfolding pair_not_gate_def Let_def by (auto simp only: split: if_splits)
  then show ?thesis
  proof cases
    case 1
    show ?thesis
      by (rule hit_from_built [OF 1(1)], unfold 1(2), erule add_nor_gate_built, (rule assms(2) ik)+)
  next
    case 2
    show ?thesis
      by (rule hit_from_built [OF 2(1)], unfold 2(2), erule add_nand_gate_built, (rule assms(2) ik)+)
  next
    case 3
    show ?thesis
      by (rule hit_from_built [OF 3(1)], unfold 3(2), erule add_xnor_gate_built, (rule assms(2) ik)+)
  next
    case 4
    show ?thesis
      by (rule hit_from_built [OF 4(1)], unfold 4(2), erule add_or_not_gate_built, (rule assms(2) ik)+)
  next
    case 5
    show ?thesis
      by (rule hit_from_built [OF 5(1)], unfold 5(2), erule add_or_not_gate_built, (rule assms(2) ik)+)
  next
    case 6
    show ?thesis
      by (rule hit_from_built [OF 6(1)], unfold 6(2), erule add_and_not_gate_built, (rule assms(2) ik)+)
  next
    case 7
    show ?thesis
      by (rule hit_from_built [OF 7(1)], unfold 7(2), erule add_and_not_gate_built, (rule assms(2) ik)+)
  qed
qed

lemma search_pairs_not_hit:
  assumes "search_pairs_not st target msk = Some res" "state_ok st"
  shows "hit st target msk res"
proof -
  from first_match_SomeD [OF assms(1) [unfolded search_pairs_not_def]]
  obtain i where i: "i < num_gates st"
    and "first_match (\<lambda>k. pair_not_gate st target msk i k) [i + 1..<num_gates st] = Some res"
    by auto
  from first_match_SomeD [OF this(2)]
  obtain k where "k < num_gates st" "pair_not_gate st target msk i k = Some res"
    by auto
  with i assms(2) show ?thesis by (blast intro: pair_not_gate_hit)
qed

text \<open>The table of a chain of two gates.\<close>

fun chain_table :: "chain \<Rightarrow> ttable \<Rightarrow> ttable \<Rightarrow> ttable \<Rightarrow> ttable" where
  "chain_table And3 a b c = and (and a b) c"
| "chain_table AndOr a b c = or (and a b) c"
| "chain_table AndXor a b c = xor (and a b) c"
| "chain_table Or3 a b c = or (or a b) c"
| "chain_table OrAnd a b c = and (or a b) c"
| "chain_table OrXor a b c = xor (or a b) c"
| "chain_table Xor3 a b c = xor (xor a b) c"
| "chain_table XorOr a b c = or (xor a b) c"
| "chain_table XorAnd a b c = and (xor a b) c"

lemma add_chain_built:
  assumes "add_chain st c g1 g2 g3 = Inr (r, st')" "state_ok st" "g3 < num_gates st"
  shows "built st st' r
           (chain_table c (table (gates st ! g1)) (table (gates st ! g2)) (table (gates st ! g3)))"
  using assms
  by (cases c)
     (simp_all add: add_and_3_gate_built add_and_or_gate_built add_and_xor_gate_built
        add_or_3_gate_built add_or_and_gate_built add_or_xor_gate_built
        add_xor_3_gate_built add_xor_or_gate_built add_xor_and_gate_built)

lemma mask_chain:
  "and (chain_table c a b d) m = chain_table c (and a m) (and b m) (and d m)"
proof (cases c)
  case And3
  then show ?thesis using mask_and [of "and a b" d m] mask_and [of a b m] by simp
next
  case AndOr
  then show ?thesis using mask_or [of "and a b" d m] mask_and [of a b m] by simp
next
  case AndXor
  then show ?thesis using mask_xor [of "and a b" d m] mask_and [of a b m] by simp
next
  case Or3
  then show ?thesis using mask_or [of "or a b" d m] mask_or [of a b m] by simp
next
  case OrAnd
  then show ?thesis using mask_and [of "or a b" d m] mask_or [of a b m] by simp
next
  case OrXor
  then show ?thesis using mask_xor [of "or a b" d m] mask_or [of a b m] by simp
next
  case Xor3
  then show ?thesis using mask_xor [of "xor a b" d m] mask_xor [of a b m] by simp
next
  case XorOr
  then show ?thesis using mask_or [of "xor a b" d m] mask_xor [of a b m] by simp
next
  case XorAnd
  then show ?thesis using mask_and [of "xor a b" d m] mask_xor [of a b m] by simp
qed

lemma triple_tests_entry:
  assumes "(t, c, g1, g2, g3) \<in> set (triple_tests (M i) (M k) (M m) i k m)"
  shows "t = chain_table c (M g1) (M g2) (M g3) \<and> g3 \<in> {i, k, m}"
  using assms unfolding triple_tests_def Let_def by auto

lemma triple_gate_hit:
  assumes "triple_gate st (and target msk) msk i k m = Some res" "state_ok st"
    and ikm: "i < num_gates st" "k < num_gates st" "m < num_gates st"
  shows "hit st target msk res"
proof -
  let ?M = "\<lambda>g. and (table (gates st ! g)) msk"
  from first_match_SomeD [OF assms(1) [unfolded triple_gate_def Let_def]]
  obtain t c g1 g2 g3 where mem: "(t, c, g1, g2, g3) \<in> set (triple_tests (?M i) (?M k) (?M m) i k m)"
    and t: "and target msk = t" and res: "res = add_chain st c g1 g2 g3"
    by (auto simp: ttable_equals_iff split: if_splits)
  from triple_tests_entry [of t c g1 g2 g3 ?M i k m, OF mem]
  have tt: "t = chain_table c (?M g1) (?M g2) (?M g3)" and g3: "g3 \<in> {i, k, m}"
    by simp_all
  from g3 ikm have g3n: "g3 < num_gates st" by auto
  show ?thesis
  proof (rule built_hit [where tbl = "chain_table c (table (gates st ! g1)) (table (gates st ! g2))
            (table (gates st ! g3))"])
    show "\<And>r st'. res = Inr (r, st') \<Longrightarrow> built st st' r
       (chain_table c (table (gates st ! g1)) (table (gates st ! g2)) (table (gates st ! g3)))"
      unfolding res using assms(2) g3n by (simp add: add_chain_built)
    show "and (chain_table c (table (gates st ! g1)) (table (gates st ! g2)) (table (gates st ! g3))) msk
            = and target msk"
      unfolding t tt by (rule mask_chain)
  qed
qed

lemma search_triples_hit:
  assumes "search_triples st target msk = Some res" "state_ok st"
  shows "hit st target msk res"
proof -
  from first_match_SomeD [OF assms(1) [unfolded search_triples_def Let_def]]
  obtain i where i: "i < num_gates st"
    and "first_match (\<lambda>k. first_match (\<lambda>m. triple_gate st (and target msk) msk i k m)
            [k + 1..<num_gates st]) [i + 1..<num_gates st] = Some res"
    by auto
  from first_match_SomeD [OF this(2)]
  obtain k where k: "k < num_gates st"
    and "first_match (\<lambda>m. triple_gate st (and target msk) msk i k m) [k + 1..<num_gates st] = Some res"
    by auto
  from first_match_SomeD [OF this(2)]
  obtain m where "m < num_gates st" "triple_gate st (and target msk) msk i k m = Some res"
    by auto
  with i k assms(2) show ?thesis by (blast intro: triple_gate_hit)
qed

text \<open>
  What the induction over the calls of \<open>create_circuit\<close> carries: for a call of
  \<open>create_circuit\<close>, the contract of its result (\<open>cc_ok\<close>); for a candidate of the split, that
  it extends the state by at least one gate, within the budget, and that its last gate
  has the wanted table under the mask (\<open>cand\<close>); for a multiplexer, that a gate returned
  is the last one of an extended state (\<open>mux_ok\<close>).
\<close>

lemma add_gate_bound:
  assumes "add_gate st ty tbl a b = Inr (r, st')" "r \<noteq> NO_GATE"
  shows "num_gates st' \<le> max_gates st'"
proof -
  have "(num_gates st + 1) mod 2 ^ 64 \<le> num_gates st + 1"
    by (rule mod_less_eq_dividend)
  with assms show ?thesis
    by (auto simp: add_gate_def Let_def u64_add_def split: if_splits)
qed

definition cc_ok :: "state \<Rightarrow> ttable \<Rightarrow> ttable \<Rightarrow> error + nat \<times> state \<Rightarrow> bool" where
  "cc_ok st target msk res \<longleftrightarrow>
     (\<forall>r st'. res = Inr (r, st') \<longrightarrow> extends st st' \<and>
        (r \<noteq> NO_GATE \<longrightarrow>
           ((r < num_gates st \<and> st' = st) \<or> (num_gates st < num_gates st' \<and> r = num_gates st' - 1)) \<and>
           ttable_equals_mask (table (gates st' ! r)) target msk))"

definition cand :: "state \<Rightarrow> ttable \<Rightarrow> ttable \<Rightarrow> state \<Rightarrow> bool" where
  "cand st target msk nst \<longleftrightarrow>
     extends st nst \<and> num_gates st < num_gates nst \<and> num_gates nst \<le> max_gates nst \<and>
     ttable_equals_mask (table (gates nst ! (num_gates nst - 1))) target msk"

definition mux_ok :: "state \<Rightarrow> nat \<Rightarrow> state \<Rightarrow> bool" where
  "mux_ok st r st' \<longleftrightarrow>
     extends st st' \<and>
     (r \<noteq> NO_GATE \<longrightarrow> num_gates st < num_gates st' \<and> num_gates st' \<le> max_gates st' \<and>
        r = num_gates st' - 1)"

lemma hit_cc_ok: "hit st target msk res \<Longrightarrow> cc_ok st target msk res"
  unfolding hit_def cc_ok_def by blast

lemma cc_ok_extends: "cc_ok st target msk res \<Longrightarrow> res = Inr (r, st') \<Longrightarrow> extends st st'"
  unfolding cc_ok_def by blast

lemma find_gate_cc_ok:
  assumes "find_gate st target msk = Some i"
  shows "cc_ok st target msk (Inr (i, st))"
proof -
  from first_match_SomeD [OF assms [unfolded find_gate_def]]
  have "i < num_gates st" "ttable_equals_mask target (table (gates st ! i)) msk"
    by (auto split: if_splits)
  then show ?thesis
    by (simp add: cc_ok_def ttable_equals_mask_sym [of target])
qed

lemma cand_cc_ok:
  assumes "cand st target msk b" "state_ok st"
  shows "cc_ok st target msk (Inr (u64_sub (num_gates b) 1, b))"
proof -
  from assms have n: "num_gates st < num_gates b" "num_gates b \<le> 500"
    by (auto simp: cand_def extends_def state_ok_def MAX_GATES_def)
  then obtain n where b: "num_gates b = Suc n" by (cases "num_gates b") auto
  with n have "u64_sub (Suc n) (Suc 0) = n" by (intro u64_sub_Suc) simp
  with b have "u64_sub (num_gates b) 1 = num_gates b - 1" by simp
  with assms n show ?thesis
    by (simp add: cc_ok_def cand_def)
qed

lemma create_circuit_step:
  assumes ok: "state_ok st"
    and loop: "\<And>b. \<lbrakk>find_gate st target msk = None; find_inverse_gate st target msk = None;
         search_pairs st target msk = None; search_pairs_not st target msk = None;
         search_triples st target msk = None; copy_inbits inbits 0 < 6;
         split_loop st target msk inbits (copy_inbits inbits 0) 0 best_init = Inr b\<rbrakk>
       \<Longrightarrow> num_gates b = 0 \<or> cand st target msk b"
  shows "cc_ok st target msk (create_circuit st target msk inbits)"
proof (cases "find_gate st target msk")
  case (Some i)
  then have "create_circuit st target msk inbits = Inr (i, st)"
    by (simp add: create_circuit.simps)
  with find_gate_cc_ok [OF Some] show ?thesis by simp
next
  case p1: None
  show ?thesis
  proof (cases "find_inverse_gate st target msk")
    case (Some res)
    with p1 have "create_circuit st target msk inbits = res"
      by (simp add: create_circuit.simps)
    with find_inverse_gate_hit [OF Some ok] show ?thesis by (simp add: hit_cc_ok)
  next
    case p2: None
    show ?thesis
    proof (cases "search_pairs st target msk")
      case (Some res)
      with p1 p2 have "create_circuit st target msk inbits = res"
        by (simp add: create_circuit.simps)
      with search_pairs_hit [OF Some ok] show ?thesis by (simp add: hit_cc_ok)
    next
      case p3: None
      show ?thesis
      proof (cases "search_pairs_not st target msk")
        case (Some res)
        with p1 p2 p3 have "create_circuit st target msk inbits = res"
          by (simp add: create_circuit.simps)
        with search_pairs_not_hit [OF Some ok] show ?thesis by (simp add: hit_cc_ok)
      next
        case p4: None
        show ?thesis
        proof (cases "search_triples st target msk")
          case (Some res)
          with p1 p2 p3 p4 have "create_circuit st target msk inbits = res"
            by (simp add: create_circuit.simps)
          with search_triples_hit [OF Some ok] show ?thesis by (simp add: hit_cc_ok)
        next
          case p5: None
          let ?bitp = "copy_inbits inbits 0"
          have cc: "create_circuit st target msk inbits =
              (if \<not> ?bitp < 6 then Inl AssertionFailed
               else (case split_loop st target msk inbits ?bitp 0 best_init of
                       Inl e \<Rightarrow> Inl e
                     | Inr best \<Rightarrow> if num_gates best = 0 then Inr (NO_GATE, st)
                                  else Inr (u64_sub (num_gates best) 1, best)))"
            using p1 p2 p3 p4 p5 by (simp add: create_circuit.simps Let_def)
          show ?thesis
          proof (cases "?bitp < 6")
            case False
            with cc show ?thesis by (simp add: cc_ok_def)
          next
            case True
            show ?thesis
            proof (cases "split_loop st target msk inbits ?bitp 0 best_init")
              case (Inl e)
              with cc True show ?thesis by (simp add: cc_ok_def)
            next
              case (Inr b)
              from loop [OF p1 p2 p3 p4 p5 True Inr]
              have c: "num_gates b = 0 \<or> cand st target msk b" .
              show ?thesis
              proof (cases "num_gates b = 0")
                case z: True
                with cc True Inr show ?thesis by (simp add: cc_ok_def)
              next
                case nz: False
                with c have "cand st target msk b" by simp
                from cand_cc_ok [OF this ok] cc True Inr nz show ?thesis by simp
              qed
            qed
          qed
        qed
      qed
    qed
  qed
qed

lemma mux_tail:
  assumes ok: "state_ok st1" and ext: "extends st st1"
    and g: "add_gate st1 ty1 t1 a b = Inr (g, st2)"
    and x: "add_xor_gate st2 fb g = Inr (r, st')"
  shows "mux_ok st r st'"
proof -
  from add_gate_extends [OF g ok] have e2: "extends st1 st2" .
  then have ok2: "state_ok st2" using ok by (rule extends_ok)
  from ext e2 have e02: "extends st st2" by (rule extends_trans)
  from add_xor_gate_cases [OF x ok2] show ?thesis
  proof
    assume "r = NO_GATE \<and> st' = st2"
    with e02 show ?thesis by (simp add: mux_ok_def)
  next
    assume a: "r \<noteq> NO_GATE \<and> fb \<noteq> NO_GATE \<and> g \<noteq> NO_GATE \<and>
       appended st2 st' r (xor (table (gates st2 ! fb)) (table (gates st2 ! g)))"
    then have ap: "r = num_gates st2" "num_gates st' = Suc (num_gates st2)" "extends st2 st'"
      by (simp_all add: appended_def)
    from a have b: "num_gates st' \<le> max_gates st'"
      using add_gate_bound [OF x [unfolded add_xor_gate_def]] by simp
    from e02 ap(3) have "extends st st'" by (rule extends_trans)
    moreover from e02 have "num_gates st \<le> num_gates st2" by (simp add: extends_def)
    ultimately show ?thesis using ap b by (simp add: mux_ok_def)
  qed
qed

lemma mux_and_step:
  assumes ok: "state_ok st"
    and m: "mux_and st target msk next_inbits bitn = Inr (r, st')"
    and ih1: "cc_ok st (and target (not (table (gates st ! bitn))))
                (and msk (not (table (gates st ! bitn))))
                (create_circuit st (and target (not (table (gates st ! bitn))))
                   (and msk (not (table (gates st ! bitn)))) next_inbits)"
    and ih2: "\<And>fb nst. \<lbrakk>create_circuit st (and target (not (table (gates st ! bitn))))
                   (and msk (not (table (gates st ! bitn)))) next_inbits = Inr (fb, nst);
                 fb \<noteq> NO_GATE; state_ok nst\<rbrakk>
              \<Longrightarrow> cc_ok nst (xor (table (gates nst ! fb)) target) (and msk (table (gates st ! bitn)))
                    (create_circuit nst (xor (table (gates nst ! fb)) target)
                       (and msk (table (gates st ! bitn))) next_inbits)"
  shows "mux_ok st r st'"
proof -
  let ?fsel = "table (gates st ! bitn)"
  from m obtain fb nst where
    1: "create_circuit st (and target (not ?fsel)) (and msk (not ?fsel)) next_inbits = Inr (fb, nst)"
    by (subst (asm) mux_and.simps) (auto simp: Let_def split: sum.splits)
  from cc_ok_extends [OF ih1 1] have e1: "extends st nst" .
  then have ok1: "state_ok nst" using ok by (rule extends_ok)
  show ?thesis
  proof (cases "fb = NO_GATE")
    case True
    with m 1 have "r = NO_GATE \<and> st' = nst"
      by (subst (asm) mux_and.simps) (simp add: Let_def)
    with e1 show ?thesis by (simp add: mux_ok_def)
  next
    case False
    with m 1 obtain fc nst1 andg nst2 where
      2: "create_circuit nst (xor (table (gates nst ! fb)) target) (and msk ?fsel) next_inbits
            = Inr (fc, nst1)"
      and 3: "add_and_gate nst1 fc bitn = Inr (andg, nst2)"
      and 4: "add_xor_gate nst2 fb andg = Inr (r, st')"
      by (subst (asm) mux_and.simps) (auto simp: Let_def split: sum.splits)
    from cc_ok_extends [OF ih2 [OF 1 False ok1] 2] have e2: "extends nst nst1" .
    from e1 e2 have "extends st nst1" by (rule extends_trans)
    moreover from e2 ok1 have "state_ok nst1" by (rule extends_ok)
    ultimately show ?thesis
      using 3 4 unfolding add_and_gate_def by (blast intro: mux_tail)
  qed
qed

lemma mux_or_step:
  assumes ok: "state_ok st"
    and m: "mux_or st target msk next_inbits bitn = Inr (Some r, st')"
    and ih1: "cc_ok st (and (not target) (table (gates st ! bitn)))
                (and msk (table (gates st ! bitn)))
                (create_circuit st (and (not target) (table (gates st ! bitn)))
                   (and msk (table (gates st ! bitn))) next_inbits)"
    and ih2: "\<And>fd nst. \<lbrakk>create_circuit st (and (not target) (table (gates st ! bitn)))
                   (and msk (table (gates st ! bitn))) next_inbits = Inr (fd, nst);
                 fd \<noteq> NO_GATE; state_ok nst\<rbrakk>
              \<Longrightarrow> cc_ok nst (xor (table (gates nst ! fd)) target)
                    (and msk (not (table (gates st ! bitn))))
                    (create_circuit nst (xor (table (gates nst ! fd)) target)
                       (and msk (not (table (gates st ! bitn)))) next_inbits)"
  shows "mux_ok st r st'"
proof -
  let ?fsel = "table (gates st ! bitn)"
  from m obtain fd nst where
    1: "create_circuit st (and (not target) ?fsel) (and msk ?fsel) next_inbits = Inr (fd, nst)"
    by (subst (asm) mux_or.simps) (auto simp: Let_def split: sum.splits)
  from cc_ok_extends [OF ih1 1] have e1: "extends st nst" .
  then have ok1: "state_ok nst" using ok by (rule extends_ok)
  from m 1 have nz: "fd \<noteq> NO_GATE"
    by (subst (asm) mux_or.simps) (auto simp: Let_def split: sum.splits if_splits)
  with m 1 obtain fe nst1 org nst2 where
    2: "create_circuit nst (xor (table (gates nst ! fd)) target) (and msk (not ?fsel)) next_inbits
          = Inr (fe, nst1)"
    and 3: "add_or_gate nst1 fe bitn = Inr (org, nst2)"
    and 4: "add_xor_gate nst2 fd org = Inr (r, st')"
    by (subst (asm) mux_or.simps) (auto simp: Let_def split: sum.splits)
  from cc_ok_extends [OF ih2 [OF 1 nz ok1] 2] have e2: "extends nst nst1" .
  from e1 e2 have "extends st nst1" by (rule extends_trans)
  moreover from e2 ok1 have "state_ok nst1" by (rule extends_ok)
  ultimately show ?thesis
    using 3 4 unfolding add_or_gate_def by (blast intro: mux_tail)
qed


lemma split_bit_step:
  assumes s: "split_bit st target msk next_inbits bitn = Inr (Some nst)"
    and a: "\<And>r st'. mux_and st target msk next_inbits bitn = Inr (r, st') \<Longrightarrow> mux_ok st r st'"
    and o: "\<And>r st'. mux_or st target msk next_inbits bitn = Inr (Some r, st') \<Longrightarrow> mux_ok st r st'"
  shows "cand st target msk nst"
proof -
  from s obtain mux_out_and nst_and mux_out_or nst_or where
    1: "mux_and st target msk next_inbits bitn = Inr (mux_out_and, nst_and)"
    and 2: "mux_or st target msk next_inbits bitn = Inr (Some mux_out_or, nst_or)"
    by (subst (asm) split_bit.simps) (auto split: sum.splits option.splits)
  from s 1 2 have some: "\<not> (mux_out_and = NO_GATE \<and> mux_out_or = NO_GATE)"
    by (subst (asm) split_bit.simps) (auto split: if_splits)
  let ?c = "mux_out_or = NO_GATE \<or> (mux_out_and \<noteq> NO_GATE \<and> num_gates nst_and < num_gates nst_or)"
  show ?thesis
  proof (cases ?c)
    case True
    with s 1 2 some have "nst = nst_and"
      and "ttable_equals_mask target (table (gates nst_and ! mux_out_and)) msk"
      by (subst (asm) split_bit.simps; simp split: if_splits)+
    moreover from True some have "mux_out_and \<noteq> NO_GATE" by blast
    ultimately show ?thesis using a [OF 1]
      by (simp add: cand_def mux_ok_def ttable_equals_mask_sym [of target])
  next
    case False
    with s 1 2 some have "nst = nst_or"
      and "ttable_equals_mask target (table (gates nst_or ! mux_out_or)) msk"
      by (subst (asm) split_bit.simps; simp split: if_splits)+
    moreover from False have "mux_out_or \<noteq> NO_GATE" by blast
    ultimately show ?thesis using o [OF 2]
      by (simp add: cand_def mux_ok_def ttable_equals_mask_sym [of target])
  qed
qed

lemma create_circuit_invariants:
  "state_ok st \<longrightarrow> cc_ok st target msk (create_circuit st target msk inbits)"
  "state_ok st \<longrightarrow> (num_gates best = 0 \<or> cand st target msk best) \<longrightarrow>
     (\<forall>b. split_loop st target msk inbits bitp bitn best = Inr b \<longrightarrow>
          num_gates b = 0 \<or> cand st target msk b)"
  "state_ok st \<longrightarrow>
     (\<forall>nst. split_bit st target msk next_inbits bitn = Inr (Some nst) \<longrightarrow> cand st target msk nst)"
  "state_ok st \<longrightarrow>
     (\<forall>r st'. mux_and st target msk next_inbits bitn = Inr (r, st') \<longrightarrow> mux_ok st r st')"
  "state_ok st \<longrightarrow>
     (\<forall>r st'. mux_or st target msk next_inbits bitn = Inr (Some r, st') \<longrightarrow> mux_ok st r st')"
proof (induction st target msk inbits and st target msk inbits bitp bitn best
         and st target msk next_inbits bitn and st target msk next_inbits bitn
         and st target msk next_inbits bitn
       rule: create_circuit_split_loop_split_bit_mux_and_mux_or.induct)
  case (1 st target msk inbits)
  show ?case
  proof
    assume ok: "state_ok st"
    show "cc_ok st target msk (create_circuit st target msk inbits)"
    proof (rule create_circuit_step [OF ok])
      fix b
      assume "find_gate st target msk = None" "find_inverse_gate st target msk = None"
        "search_pairs st target msk = None" "search_pairs_not st target msk = None"
        "search_triples st target msk = None" "copy_inbits inbits 0 < 6"
        and l: "split_loop st target msk inbits (copy_inbits inbits 0) 0 best_init = Inr b"
      from 1 [OF this(1-5) refl] this(6) ok l
      show "num_gates b = 0 \<or> cand st target msk b"
        by (simp add: best_init_def)
    qed
  qed
next
  case (2 st target msk inbits bitp bitn best)
  show ?case
  proof (intro impI allI)
    fix b
    assume ok: "state_ok st" and inv: "num_gates best = 0 \<or> cand st target msk best"
      and l: "split_loop st target msk inbits bitp bitn best = Inr b"
    show "num_gates b = 0 \<or> cand st target msk b"
    proof (cases "bitn < 8")
      case False
      with l have "b = best" by (subst (asm) split_loop.simps) simp
      with inv show ?thesis by simp
    next
      case lt: True
      show ?thesis
      proof (cases "int bitn \<in> set (take bitp inbits)")
        case True
        with l lt have "split_loop st target msk inbits bitp (bitn + 1) best = Inr b"
          by (subst (asm) split_loop.simps) simp
        with "2.IH"(1) lt True ok inv show ?thesis by simp
      next
        case nm: False
        let ?sb = "split_bit st target msk (take bitp inbits @ [int bitn, - 1]) bitn"
        from l lt nm obtain c where c: "?sb = Inr c"
          by (subst (asm) split_loop.simps) (auto split: sum.splits)
        show ?thesis
        proof (cases c)
          case None
          with l lt nm c have "split_loop st target msk inbits bitp (bitn + 1) best = Inr b"
            by (subst (asm) split_loop.simps) simp
          with "2.IH"(3) [OF _ nm c None] lt ok inv show ?thesis by simp
        next
          case (Some nst)
          let ?best = "if num_gates best = 0 \<or> num_gates nst < num_gates best then nst else best"
          from l lt nm c Some
          have l': "split_loop st target msk inbits bitp (bitn + 1) ?best = Inr b"
            by (subst (asm) split_loop.simps) simp
          from "2.IH"(2) [OF _ nm] lt ok c Some have "cand st target msk nst" by simp
          with inv have "num_gates ?best = 0 \<or> cand st target msk ?best" by auto
          with "2.IH"(4) [OF _ nm c Some] lt ok l' show ?thesis by blast
        qed
      qed
    qed
  qed
next
  case (3 st target msk next_inbits bitn)
  show ?case
  proof (intro impI allI)
    fix nst
    assume ok: "state_ok st" and s: "split_bit st target msk next_inbits bitn = Inr (Some nst)"
    from s obtain r1 s1 where m: "mux_and st target msk next_inbits bitn = Inr (r1, s1)"
      by (subst (asm) split_bit.simps) (auto split: sum.splits)
    show "cand st target msk nst"
    proof (rule split_bit_step [OF s])
      show "\<And>r st'. mux_and st target msk next_inbits bitn = Inr (r, st') \<Longrightarrow> mux_ok st r st'"
        using "3.IH"(1) ok by blast
      show "\<And>r st'. mux_or st target msk next_inbits bitn = Inr (Some r, st') \<Longrightarrow> mux_ok st r st'"
        using "3.IH"(2) [OF m refl] ok by blast
    qed
  qed
next
  case (4 st target msk next_inbits bitn)
  show ?case
  proof (intro impI allI)
    fix r st'
    assume ok: "state_ok st" and m: "mux_and st target msk next_inbits bitn = Inr (r, st')"
    show "mux_ok st r st'"
    proof (rule mux_and_step [OF ok m])
      show "cc_ok st (and target (not (table (gates st ! bitn))))
              (and msk (not (table (gates st ! bitn))))
              (create_circuit st (and target (not (table (gates st ! bitn))))
                 (and msk (not (table (gates st ! bitn)))) next_inbits)"
        using "4.IH"(1) [OF refl] ok by blast
    next
      fix fb nst
      assume "create_circuit st (and target (not (table (gates st ! bitn))))
                 (and msk (not (table (gates st ! bitn)))) next_inbits = Inr (fb, nst)"
        "fb \<noteq> NO_GATE" "state_ok nst"
      from "4.IH"(2) [OF refl this(1) refl this(2)] this(3)
      show "cc_ok nst (xor (table (gates nst ! fb)) target) (and msk (table (gates st ! bitn)))
              (create_circuit nst (xor (table (gates nst ! fb)) target)
                 (and msk (table (gates st ! bitn))) next_inbits)"
        by blast
    qed
  qed
next
  case (5 st target msk next_inbits bitn)
  show ?case
  proof (intro impI allI)
    fix r st'
    assume ok: "state_ok st" and m: "mux_or st target msk next_inbits bitn = Inr (Some r, st')"
    show "mux_ok st r st'"
    proof (rule mux_or_step [OF ok m])
      show "cc_ok st (and (not target) (table (gates st ! bitn)))
              (and msk (table (gates st ! bitn)))
              (create_circuit st (and (not target) (table (gates st ! bitn)))
                 (and msk (table (gates st ! bitn))) next_inbits)"
        using "5.IH"(1) [OF refl] ok by blast
    next
      fix fd nst
      assume "create_circuit st (and (not target) (table (gates st ! bitn)))
                 (and msk (table (gates st ! bitn))) next_inbits = Inr (fd, nst)"
        "fd \<noteq> NO_GATE" "state_ok nst"
      from "5.IH"(2) [OF refl this(1) refl this(2)] this(3)
      show "cc_ok nst (xor (table (gates nst ! fd)) target)
              (and msk (not (table (gates st ! bitn))))
              (create_circuit nst (xor (table (gates nst ! fd)) target)
                 (and msk (not (table (gates st ! bitn)))) next_inbits)"
        by blast
    qed
  qed
qed

lemma create_circuit_extends:
  assumes "state_ok st" and "create_circuit st target msk inbits = Inr (r, st')"
  shows "extends st st'"
  using create_circuit_invariants(1) [of st target msk inbits] assms
  by (blast intro: cc_ok_extends)

lemma state_ok_initial: "state_ok initial_state"
  by (simp add: state_ok_def initial_state_def MAX_GATES_def)


text \<open>Evaluating the searches on tables that are numerals.\<close>

lemmas search_eval =
  find_gate_def find_inverse_gate_def search_pairs_def search_pairs_not_def search_triples_def
  pair_gate_def pair_not_gate_def triple_gate_def triple_tests_def
  ttable_equals_iff ttable_equals_mask_iff Let_def full_mask_def
  word256_numeral_eq word256_numeral_0 word_not_num
  upt_rec [of 0] upt_rec [of "Suc 0"] numeral_2_eq_2 [symmetric]

lemmas gate_eval =
  add_gate_def add_not_gate_def add_and_gate_def add_or_gate_def add_xor_gate_def
  add_nand_gate_def add_nor_gate_def add_xnor_gate_def add_or_not_gate_def add_and_not_gate_def
  add_or_3_gate_def add_and_3_gate_def add_xor_3_gate_def add_and_or_gate_def add_and_xor_gate_def
  add_xor_or_gate_def add_xor_and_gate_def add_or_and_gate_def add_or_xor_gate_def
  NO_GATE_def u64_add_def u64_sub_def

lemma length_gates_initial: "length (gates initial_state) = 500"
  by (simp add: initial_state_def)

lemma create_circuit_not_input:
  "create_circuit initial_state 0x5555555555555555555555555555555555555555555555555555555555555555
     full_mask (replicate 8 (- 1)) =
   Inr (8, initial_state\<lparr>gates := (gates initial_state)[8 :=
             \<lparr>type = NOT, table = 0x5555555555555555555555555555555555555555555555555555555555555555,
              in1 = 0, in2 = NO_GATE\<rparr>], num_gates := 9\<rparr>)"
  by (simp add: create_circuit.simps search_eval gate_eval initial_tables length_gates_initial
       del: word_eq_numeral_iff_iszero word_no_log_defs(1,2))






subsection \<open>The number of gates and the empty candidate\<close>

lemma split_loop_sentinel:
  assumes ok: "state_ok st"
  shows "split_loop st target msk inbits bitp bitn best = Inr b \<Longrightarrow>
    (num_gates b = 0 \<longleftrightarrow>
       num_gates best = 0 \<and>
       (\<forall>j. bitn \<le> j \<and> j < 8 \<and> int j \<notin> set (take bitp inbits) \<longrightarrow>
            split_bit st target msk (take bitp inbits @ [int j, - 1]) j = Inr None))"
proof (induction "8 - bitn" arbitrary: bitn best)
  case 0
  then have "\<not> bitn < 8" by simp
  with "0.prems" have "b = best" by (subst (asm) split_loop.simps) simp
  with \<open>\<not> bitn < 8\<close> show ?case by auto
next
  case (Suc n)
  then have lt: "bitn < 8" and n: "n = 8 - (bitn + 1)" by simp_all
  let ?Q = "\<lambda>j. split_bit st target msk (take bitp inbits @ [int j, - 1]) j = Inr None"
  have range: "(\<forall>j. bitn \<le> j \<and> j < 8 \<and> int j \<notin> set (take bitp inbits) \<longrightarrow> ?Q j) \<longleftrightarrow>
      (int bitn \<notin> set (take bitp inbits) \<longrightarrow> ?Q bitn) \<and>
      (\<forall>j. bitn + 1 \<le> j \<and> j < 8 \<and> int j \<notin> set (take bitp inbits) \<longrightarrow> ?Q j)"
    (is "?A \<longleftrightarrow> ?B \<and> ?C")
  proof
    assume ?A
    with lt show "?B \<and> ?C" by auto
  next
    assume bc: "?B \<and> ?C"
    show ?A
    proof (intro allI impI)
      fix j assume j: "bitn \<le> j \<and> j < 8 \<and> int j \<notin> set (take bitp inbits)"
      show "?Q j"
      proof (cases "j = bitn")
        case True
        with bc j show ?thesis by simp
      next
        case False
        with j have "bitn + 1 \<le> j" by simp
        with bc j show ?thesis by blast
      qed
    qed
  qed
  show ?case
  proof (cases "int bitn \<in> set (take bitp inbits)")
    case True
    with Suc.prems lt have "split_loop st target msk inbits bitp (bitn + 1) best = Inr b"
      by (subst (asm) split_loop.simps) simp
    from Suc.hyps(1) [OF n this] True show ?thesis unfolding range by simp
  next
    case nm: False
    let ?sb = "split_bit st target msk (take bitp inbits @ [int bitn, - 1]) bitn"
    from Suc.prems lt nm obtain c where c: "?sb = Inr c"
      by (subst (asm) split_loop.simps) (auto split: sum.splits)
    show ?thesis
    proof (cases c)
      case None
      with Suc.prems lt nm c have "split_loop st target msk inbits bitp (bitn + 1) best = Inr b"
        by (subst (asm) split_loop.simps) simp
      from Suc.hyps(1) [OF n this] nm c None show ?thesis unfolding range by simp
    next
      case (Some nst)
      let ?best = "if num_gates best = 0 \<or> num_gates nst < num_gates best then nst else best"
      from Suc.prems lt nm c Some
      have "split_loop st target msk inbits bitp (bitn + 1) ?best = Inr b"
        by (subst (asm) split_loop.simps) simp
      from Suc.hyps(1) [OF n this]
      have ih: "num_gates b = 0 \<longrightarrow> num_gates ?best = 0" by blast
      from create_circuit_invariants(3) [of st target msk "take bitp inbits @ [int bitn, - 1]" bitn]
        ok c Some
      have "cand st target msk nst" by simp
      then have "num_gates nst \<noteq> 0" by (simp add: cand_def)
      then have "num_gates ?best \<noteq> 0" by auto
      with ih have "num_gates b \<noteq> 0" by blast
      moreover from c Some nm have "\<not> (int bitn \<notin> set (take bitp inbits) \<longrightarrow> ?Q bitn)" by simp
      ultimately show ?thesis unfolding range by blast
    qed
  qed
qed

lemma synth_output_default:
  assumes "synth_output targets ds output = Inr (saved, ds')"
  shows "(case saved of None \<Rightarrow> ds' = ds
          | Some st \<Rightarrow> ds' = ds\<lparr>max_gates := min (max_gates ds) (num_gates st)\<rparr> \<and>
              (\<exists>r st1. create_circuit ds (targets ! output) full_mask (replicate 8 (- 1)) = Inr (r, st1) \<and>
                 st = st1\<lparr>outputs := (outputs st1)[output := r]\<rparr>))"
proof (cases "outputs ds ! output \<noteq> NO_GATE")
  case True
  with assms show ?thesis by (simp add: synth_output_def)
next
  case False
  with assms obtain r st1 where
    cc: "create_circuit ds (targets ! output) full_mask (replicate 8 (- 1)) = Inr (r, st1)"
    by (auto simp: synth_output_def split: sum.splits)
  let ?st = "st1\<lparr>outputs := (outputs st1)[output := r]\<rparr>"
  show ?thesis
  proof (cases "outputs ?st ! output = NO_GATE")
    case True
    with assms False cc show ?thesis by (simp add: synth_output_def Let_def)
  next
    case nn: False
    with assms False cc have "saved = Some ?st"
      and "ds' = (if max_gates ds > num_gates ?st then ds\<lparr>max_gates := num_gates ?st\<rparr> else ds)"
      by (auto simp: synth_output_def Let_def split: if_splits)
    with cc show ?thesis by (auto simp: min_def)
  qed
qed
lemma main_loop_default:
  "main_loop targets outs ds = Inr (files, final) \<Longrightarrow> state_ok ds \<Longrightarrow>
   num_gates final = num_gates ds \<and> gates final = gates ds \<and> outputs final = outputs ds \<and>
   (\<forall>s\<in>set files. num_gates ds \<le> num_gates s)"
proof (induction outs arbitrary: ds files final)
  case Nil
  then show ?case by simp
next
  case (Cons outp rest)
  from Cons.prems(1) obtain saved ds' files' where
    so: "synth_output targets ds outp = Inr (saved, ds')"
    and ml: "main_loop targets rest ds' = Inr (files', final)"
    and files: "files = (case saved of None \<Rightarrow> [] | Some st \<Rightarrow> [st]) @ files'"
    by (auto split: sum.splits)
  from synth_output_default [OF so]
  have d: "num_gates ds' = num_gates ds \<and> gates ds' = gates ds \<and> outputs ds' = outputs ds \<and>
           max_gates ds' \<le> max_gates ds"
    by (cases saved) auto
  with Cons.prems(2) have ok': "state_ok ds'" by (simp add: state_ok_def)
  from Cons.IH [OF ml ok'] d
  have ih: "num_gates final = num_gates ds \<and> gates final = gates ds \<and> outputs final = outputs ds \<and>
            (\<forall>s\<in>set files'. num_gates ds \<le> num_gates s)"
    by simp
  have "num_gates ds \<le> num_gates st" if "saved = Some st" for st
  proof -
    from synth_output_default [OF so] that obtain r st1 where
      cc: "create_circuit ds (targets ! outp) full_mask (replicate 8 (- 1)) = Inr (r, st1)"
      and st: "st = st1\<lparr>outputs := (outputs st1)[outp := r]\<rparr>"
      by auto
    from create_circuit_extends [OF Cons.prems(2) cc] have "extends ds st1" .
    with st show ?thesis by (simp add: extends_def)
  qed
  with ih files show ?case by (cases saved) auto
qed

text \<open>
  Claim C10. The initial state has eight gates. From a state of the program with at least
  eight gates, \<^verbatim>\<open>create_circuit\<close> returns a state with at least eight; every candidate of
  the split has more gates than the state it started from, so more than eight; the loop
  over the input bits ends with \<open>best.num_gates = 0\<close> exactly when it started so and no bit
  it tried gave a candidate; and the driver keeps \<open>num_gates\<close> of its default state, every
  state it saves having at least eight gates.
\<close>

theorem sentinel_unambiguous:
  assumes "state_ok st" and "8 \<le> num_gates st"
  shows "num_gates initial_state = 8 \<and> state_ok initial_state \<and>
         (\<forall>r st'. create_circuit st target msk inbits = Inr (r, st') \<longrightarrow> 8 \<le> num_gates st') \<and>
         (\<forall>nst. split_bit st target msk next_inbits bitn = Inr (Some nst) \<longrightarrow>
            num_gates st < num_gates nst \<and> 8 < num_gates nst) \<and>
         (\<forall>b. split_loop st target msk inbits bitp bitn best = Inr b \<longrightarrow>
            (num_gates b = 0 \<longleftrightarrow>
               num_gates best = 0 \<and>
               (\<forall>j. bitn \<le> j \<and> j < 8 \<and> int j \<notin> set (take bitp inbits) \<longrightarrow>
                    split_bit st target msk (take bitp inbits @ [int j, - 1]) j = Inr None))) \<and>
         (\<forall>files final. main_loop targets outs st = Inr (files, final) \<longrightarrow>
            num_gates final = num_gates st \<and> (\<forall>s\<in>set files. 8 \<le> num_gates s))"
proof (intro conjI allI impI)
  show "num_gates initial_state = 8" by simp
  show "state_ok initial_state" by (rule state_ok_initial)
next
  fix r st' assume "create_circuit st target msk inbits = Inr (r, st')"
  from create_circuit_extends [OF assms(1) this] assms(2)
  show "8 \<le> num_gates st'" by (simp add: extends_def)
next
  fix nst assume s: "split_bit st target msk next_inbits bitn = Inr (Some nst)"
  from create_circuit_invariants(3) [of st target msk next_inbits bitn] assms(1) s
  have "cand st target msk nst" by simp
  then show "num_gates st < num_gates nst" by (simp add: cand_def)
  with assms(2) show "8 < num_gates nst" by simp
next
  fix b assume "split_loop st target msk inbits bitp bitn best = Inr b"
  then show "num_gates b = 0 \<longleftrightarrow>
       num_gates best = 0 \<and>
       (\<forall>j. bitn \<le> j \<and> j < 8 \<and> int j \<notin> set (take bitp inbits) \<longrightarrow>
            split_bit st target msk (take bitp inbits @ [int j, - 1]) j = Inr None)"
    by (rule split_loop_sentinel [OF assms(1)])
next
  fix files final assume m: "main_loop targets outs st = Inr (files, final)"
  from main_loop_default [OF m assms(1)] show "num_gates final = num_gates st" by simp
  from main_loop_default [OF m assms(1)] assms(2) show "\<forall>s\<in>set files. 8 \<le> num_gates s"
    by auto
qed

text \<open>The theorem at the initial state, for the call that appends a NOT gate.\<close>

theorem sentinel_unambiguous_witness:
  "state_ok initial_state \<and> 8 \<le> num_gates initial_state \<and>
   create_circuit initial_state 0x5555555555555555555555555555555555555555555555555555555555555555
     full_mask (replicate 8 (- 1)) =
   Inr (8, initial_state\<lparr>gates := (gates initial_state)[8 :=
             \<lparr>type = NOT, table = 0x5555555555555555555555555555555555555555555555555555555555555555,
              in1 = 0, in2 = NO_GATE\<rparr>], num_gates := 9\<rparr>) \<and>
   8 \<le> num_gates (initial_state\<lparr>gates := (gates initial_state)[8 :=
             \<lparr>type = NOT, table = 0x5555555555555555555555555555555555555555555555555555555555555555,
              in1 = 0, in2 = NO_GATE\<rparr>], num_gates := 9\<rparr>)"
  using sentinel_unambiguous [OF state_ok_initial, of
      "0x5555555555555555555555555555555555555555555555555555555555555555" full_mask
      "replicate 8 (- 1)"]
    state_ok_initial create_circuit_not_input
  by simp

subsection \<open>A target that needs the split\<close>

text \<open>
  The table \<open>0xE4\<close> under the mask \<open>0xFF\<close>: on the eight rows where inputs 3 to 7 are 0,
  the map that is input 2 where input 0 is set and input 1 elsewhere. No gate of the
  initial state, no inverse of one, and no pair or triple of them joined by the gates
  that lines 219-348 try has this table under the mask.
\<close>

lemma find_gate_E4: "find_gate initial_state 0xE4 0xFF = None"
  by (simp add: search_eval initial_tables
         del: word_eq_numeral_iff_iszero word_no_log_defs(1,2))

lemma find_inverse_gate_E4: "find_inverse_gate initial_state 0xE4 0xFF = None"
  by (simp add: search_eval initial_tables
         del: word_eq_numeral_iff_iszero word_no_log_defs(1,2))

lemma search_pairs_E4: "search_pairs initial_state 0xE4 0xFF = None"
  by (simp add: search_eval initial_tables
         del: word_eq_numeral_iff_iszero word_no_log_defs(1,2))

lemma search_pairs_not_E4: "search_pairs_not initial_state 0xE4 0xFF = None"
  by (simp add: search_eval initial_tables
         del: word_eq_numeral_iff_iszero word_no_log_defs(1,2))

lemma search_triples_E4: "search_triples initial_state 0xE4 0xFF = None"
  by (simp add: search_eval initial_tables
         del: word_eq_numeral_iff_iszero word_no_log_defs(1,2))

lemmas split_eval =
  create_circuit.simps split_loop.simps split_bit.simps mux_and.simps mux_or.simps
  copy_inbits.simps

subsection \<open>The choice between the two multiplexers\<close>

text \<open>
  The call made for input bit 1 by \<^verbatim>\<open>create_circuit\<close> on the initial state, the target
  \<open>0xE4\<close>, the mask \<open>0xFF\<close> and the used bits 3 to 7: both multiplexers take four gates.
\<close>

lemma mux_and_tie:
  "mux_and initial_state 0xE4 0xFF [3, 4, 5, 6, 7, 1, - 1] 1 =
   Inr (11, (initial_state\<lparr>gates := (gates initial_state)
        [8 := \<lparr>type = AND, table = 0xA0A0A0A0A0A0A0A0A0A0A0A0A0A0A0A0A0A0A0A0A0A0A0A0A0A0A0A0A0A0A0A0, in1 = 0, in2 = 2\<rparr>,
         9 := \<lparr>type = NOT, table = 0x5555555555555555555555555555555555555555555555555555555555555555, in1 = 0, in2 = NO_GATE\<rparr>,
         10 := \<lparr>type = AND, table = 0x4444444444444444444444444444444444444444444444444444444444444444, in1 = 9, in2 = 1\<rparr>,
         11 := \<lparr>type = XOR, table = 0xE4E4E4E4E4E4E4E4E4E4E4E4E4E4E4E4E4E4E4E4E4E4E4E4E4E4E4E4E4E4E4E4, in1 = 8, in2 = 10\<rparr>],
      num_gates := 12\<rparr>))"
  by (simp add: split_eval search_eval gate_eval initial_tables length_gates_initial
         del: word_eq_numeral_iff_iszero word_no_log_defs(1,2))

lemma mux_or_tie:
  "mux_or initial_state 0xE4 0xFF [3, 4, 5, 6, 7, 1, - 1] 1 =
   Inr (Some 11, (initial_state\<lparr>gates := (gates initial_state)
        [8 := \<lparr>type = NOT, table = 0x0F0F0F0F0F0F0F0F0F0F0F0F0F0F0F0F0F0F0F0F0F0F0F0F0F0F0F0F0F0F0F0F, in1 = 2, in2 = NO_GATE\<rparr>,
         9 := \<lparr>type = AND, table = 0x0A0A0A0A0A0A0A0A0A0A0A0A0A0A0A0A0A0A0A0A0A0A0A0A0A0A0A0A0A0A0A0A, in1 = 8, in2 = 0\<rparr>,
         10 := \<lparr>type = OR, table = 0xEEEEEEEEEEEEEEEEEEEEEEEEEEEEEEEEEEEEEEEEEEEEEEEEEEEEEEEEEEEEEEEE, in1 = 0, in2 = 1\<rparr>,
         11 := \<lparr>type = XOR, table = 0xE4E4E4E4E4E4E4E4E4E4E4E4E4E4E4E4E4E4E4E4E4E4E4E4E4E4E4E4E4E4E4E4, in1 = 9, in2 = 10\<rparr>],
      num_gates := 12\<rparr>))"
  by (simp add: split_eval search_eval gate_eval initial_tables length_gates_initial
         del: word_eq_numeral_iff_iszero word_no_log_defs(1,2))

lemma split_bit_tie:
  "split_bit initial_state 0xE4 0xFF [3, 4, 5, 6, 7, 1, - 1] 1 =
   Inr (Some (initial_state\<lparr>gates := (gates initial_state)
        [8 := \<lparr>type = NOT, table = 0x0F0F0F0F0F0F0F0F0F0F0F0F0F0F0F0F0F0F0F0F0F0F0F0F0F0F0F0F0F0F0F0F, in1 = 2, in2 = NO_GATE\<rparr>,
         9 := \<lparr>type = AND, table = 0x0A0A0A0A0A0A0A0A0A0A0A0A0A0A0A0A0A0A0A0A0A0A0A0A0A0A0A0A0A0A0A0A, in1 = 8, in2 = 0\<rparr>,
         10 := \<lparr>type = OR, table = 0xEEEEEEEEEEEEEEEEEEEEEEEEEEEEEEEEEEEEEEEEEEEEEEEEEEEEEEEEEEEEEEEE, in1 = 0, in2 = 1\<rparr>,
         11 := \<lparr>type = XOR, table = 0xE4E4E4E4E4E4E4E4E4E4E4E4E4E4E4E4E4E4E4E4E4E4E4E4E4E4E4E4E4E4E4E4, in1 = 9, in2 = 10\<rparr>],
      num_gates := 12\<rparr>))"
  by (simp only: split_bit.simps mux_and_tie mux_or_tie)
     (simp add: NO_GATE_def length_gates_initial
        ttable_equals_mask_iff word256_numeral_eq word256_numeral_0
       del: word_eq_numeral_iff_iszero word_no_log_defs(1,2))

text \<open>
  Claim C3, as amended. When both multiplexers return a gate, lines 410-416 take the AND
  candidate only if it has strictly fewer gates; otherwise, also when the two have the
  same number of gates, they take the OR candidate. The candidate taken is returned if
  its last gate has the target's table under the mask (the assertion of line 417).
\<close>

theorem split_bit_selection:
  assumes "mux_and st target msk next_inbits bitn = Inr (mux_out_and, nst_and)"
    and "mux_or st target msk next_inbits bitn = Inr (Some mux_out_or, nst_or)"
    and "mux_out_and \<noteq> NO_GATE" and "mux_out_or \<noteq> NO_GATE"
  shows "split_bit st target msk next_inbits bitn =
     (if num_gates nst_and < num_gates nst_or
      then if ttable_equals_mask target (table (gates nst_and ! mux_out_and)) msk
           then Inr (Some nst_and) else Inl AssertionFailed
      else if ttable_equals_mask target (table (gates nst_or ! mux_out_or)) msk
           then Inr (Some nst_or) else Inl AssertionFailed)"
  using assms by (simp add: split_bit.simps)

text \<open>The theorem at the call above: twelve gates each, and the OR candidate is taken.\<close>

theorem split_bit_selection_witness:
  "mux_and initial_state 0xE4 0xFF [3, 4, 5, 6, 7, 1, - 1] 1 =
   Inr (11, (initial_state\<lparr>gates := (gates initial_state)
        [8 := \<lparr>type = AND, table = 0xA0A0A0A0A0A0A0A0A0A0A0A0A0A0A0A0A0A0A0A0A0A0A0A0A0A0A0A0A0A0A0A0, in1 = 0, in2 = 2\<rparr>,
         9 := \<lparr>type = NOT, table = 0x5555555555555555555555555555555555555555555555555555555555555555, in1 = 0, in2 = NO_GATE\<rparr>,
         10 := \<lparr>type = AND, table = 0x4444444444444444444444444444444444444444444444444444444444444444, in1 = 9, in2 = 1\<rparr>,
         11 := \<lparr>type = XOR, table = 0xE4E4E4E4E4E4E4E4E4E4E4E4E4E4E4E4E4E4E4E4E4E4E4E4E4E4E4E4E4E4E4E4, in1 = 8, in2 = 10\<rparr>],
      num_gates := 12\<rparr>)) \<and>
   mux_or initial_state 0xE4 0xFF [3, 4, 5, 6, 7, 1, - 1] 1 =
   Inr (Some 11, (initial_state\<lparr>gates := (gates initial_state)
        [8 := \<lparr>type = NOT, table = 0x0F0F0F0F0F0F0F0F0F0F0F0F0F0F0F0F0F0F0F0F0F0F0F0F0F0F0F0F0F0F0F0F, in1 = 2, in2 = NO_GATE\<rparr>,
         9 := \<lparr>type = AND, table = 0x0A0A0A0A0A0A0A0A0A0A0A0A0A0A0A0A0A0A0A0A0A0A0A0A0A0A0A0A0A0A0A0A, in1 = 8, in2 = 0\<rparr>,
         10 := \<lparr>type = OR, table = 0xEEEEEEEEEEEEEEEEEEEEEEEEEEEEEEEEEEEEEEEEEEEEEEEEEEEEEEEEEEEEEEEE, in1 = 0, in2 = 1\<rparr>,
         11 := \<lparr>type = XOR, table = 0xE4E4E4E4E4E4E4E4E4E4E4E4E4E4E4E4E4E4E4E4E4E4E4E4E4E4E4E4E4E4E4E4, in1 = 9, in2 = 10\<rparr>],
      num_gates := 12\<rparr>)) \<and>
   11 \<noteq> NO_GATE \<and>
   split_bit initial_state 0xE4 0xFF [3, 4, 5, 6, 7, 1, - 1] 1 =
   Inr (Some (initial_state\<lparr>gates := (gates initial_state)
        [8 := \<lparr>type = NOT, table = 0x0F0F0F0F0F0F0F0F0F0F0F0F0F0F0F0F0F0F0F0F0F0F0F0F0F0F0F0F0F0F0F0F, in1 = 2, in2 = NO_GATE\<rparr>,
         9 := \<lparr>type = AND, table = 0x0A0A0A0A0A0A0A0A0A0A0A0A0A0A0A0A0A0A0A0A0A0A0A0A0A0A0A0A0A0A0A0A, in1 = 8, in2 = 0\<rparr>,
         10 := \<lparr>type = OR, table = 0xEEEEEEEEEEEEEEEEEEEEEEEEEEEEEEEEEEEEEEEEEEEEEEEEEEEEEEEEEEEEEEEE, in1 = 0, in2 = 1\<rparr>,
         11 := \<lparr>type = XOR, table = 0xE4E4E4E4E4E4E4E4E4E4E4E4E4E4E4E4E4E4E4E4E4E4E4E4E4E4E4E4E4E4E4E4, in1 = 9, in2 = 10\<rparr>],
      num_gates := 12\<rparr>))"
  using split_bit_selection [OF mux_and_tie mux_or_tie] mux_and_tie mux_or_tie
  by (simp add: NO_GATE_def length_gates_initial
        ttable_equals_mask_iff word256_numeral_eq word256_numeral_0
       del: word_eq_numeral_iff_iszero word_no_log_defs(1,2))

text \<open>
  Claim C3 as stated fails: at this call both multiplexers succeed with twelve gates each,
  and the candidate taken is the one of the OR multiplexer, whose gate 8 is a NOT gate,
  not the one of the AND multiplexer, whose gate 8 is an AND gate.
\<close>

theorem split_bit_tie_counterexample:
  "mux_and initial_state 0xE4 0xFF [3, 4, 5, 6, 7, 1, - 1] 1 =
   Inr (11, (initial_state\<lparr>gates := (gates initial_state)
        [8 := \<lparr>type = AND, table = 0xA0A0A0A0A0A0A0A0A0A0A0A0A0A0A0A0A0A0A0A0A0A0A0A0A0A0A0A0A0A0A0A0, in1 = 0, in2 = 2\<rparr>,
         9 := \<lparr>type = NOT, table = 0x5555555555555555555555555555555555555555555555555555555555555555, in1 = 0, in2 = NO_GATE\<rparr>,
         10 := \<lparr>type = AND, table = 0x4444444444444444444444444444444444444444444444444444444444444444, in1 = 9, in2 = 1\<rparr>,
         11 := \<lparr>type = XOR, table = 0xE4E4E4E4E4E4E4E4E4E4E4E4E4E4E4E4E4E4E4E4E4E4E4E4E4E4E4E4E4E4E4E4, in1 = 8, in2 = 10\<rparr>],
      num_gates := 12\<rparr>)) \<and>
   mux_or initial_state 0xE4 0xFF [3, 4, 5, 6, 7, 1, - 1] 1 =
   Inr (Some 11, (initial_state\<lparr>gates := (gates initial_state)
        [8 := \<lparr>type = NOT, table = 0x0F0F0F0F0F0F0F0F0F0F0F0F0F0F0F0F0F0F0F0F0F0F0F0F0F0F0F0F0F0F0F0F, in1 = 2, in2 = NO_GATE\<rparr>,
         9 := \<lparr>type = AND, table = 0x0A0A0A0A0A0A0A0A0A0A0A0A0A0A0A0A0A0A0A0A0A0A0A0A0A0A0A0A0A0A0A0A, in1 = 8, in2 = 0\<rparr>,
         10 := \<lparr>type = OR, table = 0xEEEEEEEEEEEEEEEEEEEEEEEEEEEEEEEEEEEEEEEEEEEEEEEEEEEEEEEEEEEEEEEE, in1 = 0, in2 = 1\<rparr>,
         11 := \<lparr>type = XOR, table = 0xE4E4E4E4E4E4E4E4E4E4E4E4E4E4E4E4E4E4E4E4E4E4E4E4E4E4E4E4E4E4E4E4, in1 = 9, in2 = 10\<rparr>],
      num_gates := 12\<rparr>)) \<and>
   num_gates (initial_state\<lparr>gates := (gates initial_state)
        [8 := \<lparr>type = AND, table = 0xA0A0A0A0A0A0A0A0A0A0A0A0A0A0A0A0A0A0A0A0A0A0A0A0A0A0A0A0A0A0A0A0, in1 = 0, in2 = 2\<rparr>,
         9 := \<lparr>type = NOT, table = 0x5555555555555555555555555555555555555555555555555555555555555555, in1 = 0, in2 = NO_GATE\<rparr>,
         10 := \<lparr>type = AND, table = 0x4444444444444444444444444444444444444444444444444444444444444444, in1 = 9, in2 = 1\<rparr>,
         11 := \<lparr>type = XOR, table = 0xE4E4E4E4E4E4E4E4E4E4E4E4E4E4E4E4E4E4E4E4E4E4E4E4E4E4E4E4E4E4E4E4, in1 = 8, in2 = 10\<rparr>],
      num_gates := 12\<rparr>) = 12 \<and>
   num_gates (initial_state\<lparr>gates := (gates initial_state)
        [8 := \<lparr>type = NOT, table = 0x0F0F0F0F0F0F0F0F0F0F0F0F0F0F0F0F0F0F0F0F0F0F0F0F0F0F0F0F0F0F0F0F, in1 = 2, in2 = NO_GATE\<rparr>,
         9 := \<lparr>type = AND, table = 0x0A0A0A0A0A0A0A0A0A0A0A0A0A0A0A0A0A0A0A0A0A0A0A0A0A0A0A0A0A0A0A0A, in1 = 8, in2 = 0\<rparr>,
         10 := \<lparr>type = OR, table = 0xEEEEEEEEEEEEEEEEEEEEEEEEEEEEEEEEEEEEEEEEEEEEEEEEEEEEEEEEEEEEEEEE, in1 = 0, in2 = 1\<rparr>,
         11 := \<lparr>type = XOR, table = 0xE4E4E4E4E4E4E4E4E4E4E4E4E4E4E4E4E4E4E4E4E4E4E4E4E4E4E4E4E4E4E4E4, in1 = 9, in2 = 10\<rparr>],
      num_gates := 12\<rparr>) = 12 \<and>
   split_bit initial_state 0xE4 0xFF [3, 4, 5, 6, 7, 1, - 1] 1 =
   Inr (Some (initial_state\<lparr>gates := (gates initial_state)
        [8 := \<lparr>type = NOT, table = 0x0F0F0F0F0F0F0F0F0F0F0F0F0F0F0F0F0F0F0F0F0F0F0F0F0F0F0F0F0F0F0F0F, in1 = 2, in2 = NO_GATE\<rparr>,
         9 := \<lparr>type = AND, table = 0x0A0A0A0A0A0A0A0A0A0A0A0A0A0A0A0A0A0A0A0A0A0A0A0A0A0A0A0A0A0A0A0A, in1 = 8, in2 = 0\<rparr>,
         10 := \<lparr>type = OR, table = 0xEEEEEEEEEEEEEEEEEEEEEEEEEEEEEEEEEEEEEEEEEEEEEEEEEEEEEEEEEEEEEEEE, in1 = 0, in2 = 1\<rparr>,
         11 := \<lparr>type = XOR, table = 0xE4E4E4E4E4E4E4E4E4E4E4E4E4E4E4E4E4E4E4E4E4E4E4E4E4E4E4E4E4E4E4E4, in1 = 9, in2 = 10\<rparr>],
      num_gates := 12\<rparr>)) \<and>
   type (gates (initial_state\<lparr>gates := (gates initial_state)
        [8 := \<lparr>type = NOT, table = 0x0F0F0F0F0F0F0F0F0F0F0F0F0F0F0F0F0F0F0F0F0F0F0F0F0F0F0F0F0F0F0F0F, in1 = 2, in2 = NO_GATE\<rparr>,
         9 := \<lparr>type = AND, table = 0x0A0A0A0A0A0A0A0A0A0A0A0A0A0A0A0A0A0A0A0A0A0A0A0A0A0A0A0A0A0A0A0A, in1 = 8, in2 = 0\<rparr>,
         10 := \<lparr>type = OR, table = 0xEEEEEEEEEEEEEEEEEEEEEEEEEEEEEEEEEEEEEEEEEEEEEEEEEEEEEEEEEEEEEEEE, in1 = 0, in2 = 1\<rparr>,
         11 := \<lparr>type = XOR, table = 0xE4E4E4E4E4E4E4E4E4E4E4E4E4E4E4E4E4E4E4E4E4E4E4E4E4E4E4E4E4E4E4E4, in1 = 9, in2 = 10\<rparr>],
      num_gates := 12\<rparr>) ! 8) = NOT \<and>
   type (gates (initial_state\<lparr>gates := (gates initial_state)
        [8 := \<lparr>type = AND, table = 0xA0A0A0A0A0A0A0A0A0A0A0A0A0A0A0A0A0A0A0A0A0A0A0A0A0A0A0A0A0A0A0A0, in1 = 0, in2 = 2\<rparr>,
         9 := \<lparr>type = NOT, table = 0x5555555555555555555555555555555555555555555555555555555555555555, in1 = 0, in2 = NO_GATE\<rparr>,
         10 := \<lparr>type = AND, table = 0x4444444444444444444444444444444444444444444444444444444444444444, in1 = 9, in2 = 1\<rparr>,
         11 := \<lparr>type = XOR, table = 0xE4E4E4E4E4E4E4E4E4E4E4E4E4E4E4E4E4E4E4E4E4E4E4E4E4E4E4E4E4E4E4E4, in1 = 8, in2 = 10\<rparr>],
      num_gates := 12\<rparr>) ! 8) = AND"
  using mux_and_tie mux_or_tie split_bit_tie
  by (simp add: length_gates_initial)

subsection \<open>Six input bits used\<close>




subsection \<open>The unassigned \<^verbatim>\<open>mux_out_or\<close>\<close>

text \<open>The searches look at the gates only, not at the budget.\<close>

lemma find_gate_budget: "find_gate (st\<lparr>max_gates := b\<rparr>) target msk = find_gate st target msk"
  by (simp add: find_gate_def)

lemma find_inverse_gate_budget:
  "find_inverse_gate (st\<lparr>max_gates := b\<rparr>) target msk = None \<longleftrightarrow>
   find_inverse_gate st target msk = None"
  by (simp add: find_inverse_gate_def first_match_None_iff)

lemma search_pairs_budget:
  "search_pairs (st\<lparr>max_gates := b\<rparr>) target msk = None \<longleftrightarrow> search_pairs st target msk = None"
  by (simp add: search_pairs_def pair_gate_def Let_def first_match_None_iff)

lemma search_pairs_not_budget:
  "search_pairs_not (st\<lparr>max_gates := b\<rparr>) target msk = None \<longleftrightarrow>
   search_pairs_not st target msk = None"
  by (simp add: search_pairs_not_def pair_not_gate_def Let_def first_match_None_iff)

lemma search_triples_budget:
  "search_triples (st\<lparr>max_gates := b\<rparr>) target msk = None \<longleftrightarrow>
   search_triples st target msk = None"
  by (simp add: search_triples_None triple_gate_None)

lemma searches_budget_full:
  "find_gate (initial_state\<lparr>max_gates := 8\<rparr>) 0xE4 0xFF = None"
  "find_inverse_gate (initial_state\<lparr>max_gates := 8\<rparr>) 0xE4 0xFF = None"
  "search_pairs (initial_state\<lparr>max_gates := 8\<rparr>) 0xE4 0xFF = None"
  "search_pairs_not (initial_state\<lparr>max_gates := 8\<rparr>) 0xE4 0xFF = None"
  "search_triples (initial_state\<lparr>max_gates := 8\<rparr>) 0xE4 0xFF = None"
  using find_gate_E4 find_inverse_gate_E4 search_pairs_E4 search_pairs_not_E4 search_triples_E4
  by (simp_all only: find_gate_budget find_inverse_gate_budget search_pairs_budget
        search_pairs_not_budget search_triples_budget)

text \<open>
  The initial state with its budget used up (\<open>max_gates = 8\<close>), the target \<open>0xE4\<close>, the mask
  \<open>0xFF\<close> and the used bits 3 to 7. At input bit 0, \<^verbatim>\<open>fb\<close> is gate 1 and \<^verbatim>\<open>fc\<close> would be an
  XOR gate, which the budget refuses, so \<^verbatim>\<open>mux_out_and\<close> is \<open>NO_GATE\<close>; \<^verbatim>\<open>fd\<close> would be a NOT
  gate, which the budget refuses, so \<^verbatim>\<open>fd\<close> is \<open>NO_GATE\<close>.
\<close>

lemma fd_budget_full:
  "create_circuit (initial_state\<lparr>max_gates := 8\<rparr>)
     (and (not 0xE4) (table (gates (initial_state\<lparr>max_gates := 8\<rparr>) ! 0)))
     (and 0xFF (table (gates (initial_state\<lparr>max_gates := 8\<rparr>) ! 0)))
     [3, 4, 5, 6, 7, 0, - 1] =
   Inr (NO_GATE, initial_state\<lparr>max_gates := 8\<rparr>)"
  by (simp add: split_eval search_eval gate_eval initial_tables length_gates_initial
         del: word_eq_numeral_iff_iszero word_no_log_defs(1,2))

lemma mux_and_budget_full:
  "mux_and (initial_state\<lparr>max_gates := 8\<rparr>) 0xE4 0xFF [3, 4, 5, 6, 7, 0, - 1] 0 =
   Inr (NO_GATE, initial_state\<lparr>max_gates := 8\<rparr>)"
  by (simp add: split_eval search_eval gate_eval initial_tables length_gates_initial
         del: word_eq_numeral_iff_iszero word_no_log_defs(1,2))

lemma split_bit_budget_full:
  "split_bit (initial_state\<lparr>max_gates := 8\<rparr>) 0xE4 0xFF [3, 4, 5, 6, 7, 0, - 1] 0 =
   Inl UninitialisedRead"
  by (simp add: split_eval search_eval gate_eval initial_tables length_gates_initial
         del: word_eq_numeral_iff_iszero word_no_log_defs(1,2))

lemma create_circuit_budget_full:
  "create_circuit (initial_state\<lparr>max_gates := 8\<rparr>) 0xE4 0xFF [3, 4, 5, 6, 7, - 1, - 1, - 1] =
   Inl UninitialisedRead"
  by (simp add: create_circuit.simps split_loop.simps copy_inbits.simps split_bit_budget_full
        searches_budget_full)

text \<open>
  Claim C5 does not hold of the code. \<^verbatim>\<open>mux_out_or\<close> is declared without a value (line 397)
  and assigned only when \<^verbatim>\<open>fd\<close> is a gate, whereas \<^verbatim>\<open>mux_out_and\<close> starts as \<open>NO_GATE\<close> (line
  387). When \<^verbatim>\<open>fd\<close> is \<open>NO_GATE\<close> the OR multiplexer leaves no value, and the tests of
  lines 405 and 410 read the unassigned variable, unless the AND multiplexer has failed
  an assertion before.
\<close>

theorem mux_out_or_unassigned:
  assumes "create_circuit st (and (not target) (table (gates st ! bitn)))
             (and msk (table (gates st ! bitn))) next_inbits = Inr (NO_GATE, nst_or)"
  shows "mux_or st target msk next_inbits bitn = Inr (None, nst_or) \<and>
         split_bit st target msk next_inbits bitn =
           (case mux_and st target msk next_inbits bitn of
              Inl e \<Rightarrow> Inl e | Inr res \<Rightarrow> Inl UninitialisedRead)"
proof -
  from assms have m: "mux_or st target msk next_inbits bitn = Inr (None, nst_or)"
    by (simp add: mux_or.simps Let_def)
  then show ?thesis
    by (simp add: split_bit.simps split: sum.splits prod.splits)
qed

text \<open>The theorem at the call above; the whole call of \<^verbatim>\<open>create_circuit\<close> ends there.\<close>

theorem mux_out_or_unassigned_witness:
  "create_circuit (initial_state\<lparr>max_gates := 8\<rparr>)
     (and (not 0xE4) (table (gates (initial_state\<lparr>max_gates := 8\<rparr>) ! 0)))
     (and 0xFF (table (gates (initial_state\<lparr>max_gates := 8\<rparr>) ! 0)))
     [3, 4, 5, 6, 7, 0, - 1] =
   Inr (NO_GATE, initial_state\<lparr>max_gates := 8\<rparr>) \<and>
   mux_and (initial_state\<lparr>max_gates := 8\<rparr>) 0xE4 0xFF [3, 4, 5, 6, 7, 0, - 1] 0 =
   Inr (NO_GATE, initial_state\<lparr>max_gates := 8\<rparr>) \<and>
   mux_or (initial_state\<lparr>max_gates := 8\<rparr>) 0xE4 0xFF [3, 4, 5, 6, 7, 0, - 1] 0 =
   Inr (None, initial_state\<lparr>max_gates := 8\<rparr>) \<and>
   split_bit (initial_state\<lparr>max_gates := 8\<rparr>) 0xE4 0xFF [3, 4, 5, 6, 7, 0, - 1] 0 =
   Inl UninitialisedRead \<and>
   create_circuit (initial_state\<lparr>max_gates := 8\<rparr>) 0xE4 0xFF [3, 4, 5, 6, 7, - 1, - 1, - 1] =
   Inl UninitialisedRead"
  using mux_out_or_unassigned [OF fd_budget_full] fd_budget_full mux_and_budget_full
    create_circuit_budget_full
  by simp

subsection \<open>The driver's default state\<close>

text \<open>
  A state file with nine gates, the ninth holding the inverse of the table of output 0,
  and no output set. The round for output 0 finds the inverse in step 2, appends a NOT
  gate as gate 9 and saves the state with ten gates and output 0 set to 9.
\<close>

lemma sbox_table_0: "target_table 0 True = 0x81C1C48F159435785DFE3D69CF1E4E3C2F75F143A4760515E9C1C961578DA9A8"
  by (simp add: target_table_tt_loop tt_loop.simps bit_Suc_0_iff g_sbox_enc_def)

lemma g_target_eq: "g_target = Inr (map (\<lambda>b. target_table b True) [0..<8])"
  by (simp add: g_target_def upt_8 generate_target_def)

lemma synth_output_loaded:
  "synth_output (map (\<lambda>b. target_table b True) [0..<8])
     ((initial_state\<lparr>gates := (gates initial_state)
        [8 := \<lparr>type = NOT, table = 0x7E3E3B70EA6BCA87A201C29630E1B1C3D08A0EBC5B89FAEA163E369EA8725657, in1 = 0, in2 = NO_GATE\<rparr>],
      num_gates := 9\<rparr>)\<lparr>max_gates := MAX_GATES\<rparr>) 0 =
   Inr (Some ((initial_state\<lparr>gates := (gates initial_state)
        [8 := \<lparr>type = NOT, table = 0x7E3E3B70EA6BCA87A201C29630E1B1C3D08A0EBC5B89FAEA163E369EA8725657, in1 = 0, in2 = NO_GATE\<rparr>,
         9 := \<lparr>type = NOT, table = 0x81C1C48F159435785DFE3D69CF1E4E3C2F75F143A4760515E9C1C961578DA9A8, in1 = 8, in2 = NO_GATE\<rparr>],
      num_gates := 10\<rparr>)\<lparr>outputs := (replicate 8 NO_GATE)[0 := 9]\<rparr>),
        (initial_state\<lparr>gates := (gates initial_state)
        [8 := \<lparr>type = NOT, table = 0x7E3E3B70EA6BCA87A201C29630E1B1C3D08A0EBC5B89FAEA163E369EA8725657, in1 = 0, in2 = NO_GATE\<rparr>],
      num_gates := 9\<rparr>)\<lparr>max_gates := 10\<rparr>)"
  by (simp add: synth_output_def sbox_table_0 create_circuit.simps search_eval gate_eval
        initial_tables length_gates_initial MAX_GATES_def initial_state_def [THEN arg_cong, of outputs]
       del: word_eq_numeral_iff_iszero word_no_log_defs(1,2))

lemma synth_output_outputs:
  assumes "synth_output targets ds outp = Inr (Some st, ds')"
  shows "outputs ds ! outp = NO_GATE \<and> outputs st ! outp \<noteq> NO_GATE"
  using assms
  by (auto simp: synth_output_def Let_def split: if_splits sum.splits)

text \<open>
  Claim C2, as amended. After a successful round for an output, the state with the new
  gates and the output set is the state saved (line 598); it does not become the state
  the next round starts from. The next round starts from \<^verbatim>\<open>default_state\<close>, which keeps
  its gates, \<^verbatim>\<open>num_gates\<close> and outputs; only its \<^verbatim>\<open>max_gates\<close> is lowered to the number of
  gates of the saved state, if that is smaller (lines 599-602). In particular the output
  just set in the saved state is still unset in \<^verbatim>\<open>default_state\<close>, so the two differ after
  every successful round.
\<close>

theorem default_state_kept:
  assumes "synth_output targets default_state outp = Inr (Some st, default_state')"
  shows "default_state' = default_state\<lparr>max_gates := min (max_gates default_state) (num_gates st)\<rparr> \<and>
         outputs default_state' ! outp = NO_GATE \<and> outputs st ! outp \<noteq> NO_GATE \<and>
         default_state' \<noteq> st \<and>
         (\<exists>r st1. create_circuit default_state (targets ! outp) full_mask (replicate 8 (- 1)) =
                     Inr (r, st1) \<and>
                   st = st1\<lparr>outputs := (outputs st1)[outp := r]\<rparr>) \<and>
         main_loop targets (outp # rest) default_state =
           (case main_loop targets rest default_state' of
              Inl e \<Rightarrow> Inl e
            | Inr (files, final) \<Rightarrow> Inr (st # files, final))"
proof -
  from synth_output_default [OF assms]
  have d: "default_state' = default_state\<lparr>max_gates := min (max_gates default_state) (num_gates st)\<rparr>"
    and c: "\<exists>r st1. create_circuit default_state (targets ! outp) full_mask (replicate 8 (- 1)) =
                     Inr (r, st1) \<and> st = st1\<lparr>outputs := (outputs st1)[outp := r]\<rparr>"
    by simp_all
  from synth_output_outputs [OF assms] d
  have o: "outputs default_state' ! outp = NO_GATE" "outputs st ! outp \<noteq> NO_GATE"
    by simp_all
  then have "default_state' \<noteq> st" by auto
  moreover have "main_loop targets (outp # rest) default_state =
           (case main_loop targets rest default_state' of
              Inl e \<Rightarrow> Inl e
            | Inr (files, final) \<Rightarrow> Inr (st # files, final))"
    using assms by (auto split: sum.splits)
  ultimately show ?thesis using d c o by blast
qed

text \<open>The theorem at the state file above, for a loop over output 0 only.\<close>

theorem default_state_kept_witness:
  "synth_output (map (\<lambda>b. target_table b True) [0..<8])
     ((initial_state\<lparr>gates := (gates initial_state)
        [8 := \<lparr>type = NOT, table = 0x7E3E3B70EA6BCA87A201C29630E1B1C3D08A0EBC5B89FAEA163E369EA8725657, in1 = 0, in2 = NO_GATE\<rparr>],
      num_gates := 9\<rparr>)\<lparr>max_gates := MAX_GATES\<rparr>) 0 =
   Inr (Some ((initial_state\<lparr>gates := (gates initial_state)
        [8 := \<lparr>type = NOT, table = 0x7E3E3B70EA6BCA87A201C29630E1B1C3D08A0EBC5B89FAEA163E369EA8725657, in1 = 0, in2 = NO_GATE\<rparr>,
         9 := \<lparr>type = NOT, table = 0x81C1C48F159435785DFE3D69CF1E4E3C2F75F143A4760515E9C1C961578DA9A8, in1 = 8, in2 = NO_GATE\<rparr>],
      num_gates := 10\<rparr>)\<lparr>outputs := (replicate 8 NO_GATE)[0 := 9]\<rparr>),
        ((initial_state\<lparr>gates := (gates initial_state)
        [8 := \<lparr>type = NOT, table = 0x7E3E3B70EA6BCA87A201C29630E1B1C3D08A0EBC5B89FAEA163E369EA8725657, in1 = 0, in2 = NO_GATE\<rparr>],
      num_gates := 9\<rparr>)\<lparr>max_gates := 10\<rparr>)) \<and>
   main_loop (map (\<lambda>b. target_table b True) [0..<8]) [0]
     ((initial_state\<lparr>gates := (gates initial_state)
        [8 := \<lparr>type = NOT, table = 0x7E3E3B70EA6BCA87A201C29630E1B1C3D08A0EBC5B89FAEA163E369EA8725657, in1 = 0, in2 = NO_GATE\<rparr>],
      num_gates := 9\<rparr>)\<lparr>max_gates := MAX_GATES\<rparr>) =
   Inr ([((initial_state\<lparr>gates := (gates initial_state)
        [8 := \<lparr>type = NOT, table = 0x7E3E3B70EA6BCA87A201C29630E1B1C3D08A0EBC5B89FAEA163E369EA8725657, in1 = 0, in2 = NO_GATE\<rparr>,
         9 := \<lparr>type = NOT, table = 0x81C1C48F159435785DFE3D69CF1E4E3C2F75F143A4760515E9C1C961578DA9A8, in1 = 8, in2 = NO_GATE\<rparr>],
      num_gates := 10\<rparr>)\<lparr>outputs := (replicate 8 NO_GATE)[0 := 9]\<rparr>)],
        ((initial_state\<lparr>gates := (gates initial_state)
        [8 := \<lparr>type = NOT, table = 0x7E3E3B70EA6BCA87A201C29630E1B1C3D08A0EBC5B89FAEA163E369EA8725657, in1 = 0, in2 = NO_GATE\<rparr>],
      num_gates := 9\<rparr>)\<lparr>max_gates := 10\<rparr>))"
  using default_state_kept [OF synth_output_loaded, of "[]"] synth_output_loaded
  by simp

text \<open>
  Claim C2 as stated fails: after the round for output 0 the saved state has ten gates and
  output 0 set to gate 9, while the round for output 1 starts from a state with nine
  gates and output 0 not set.
\<close>

theorem default_state_counterexample:
  "g_target = Inr (map (\<lambda>b. target_table b True) [0..<8]) \<and>
   synth_output (map (\<lambda>b. target_table b True) [0..<8])
     ((initial_state\<lparr>gates := (gates initial_state)
        [8 := \<lparr>type = NOT, table = 0x7E3E3B70EA6BCA87A201C29630E1B1C3D08A0EBC5B89FAEA163E369EA8725657, in1 = 0, in2 = NO_GATE\<rparr>],
      num_gates := 9\<rparr>)\<lparr>max_gates := MAX_GATES\<rparr>) 0 =
   Inr (Some ((initial_state\<lparr>gates := (gates initial_state)
        [8 := \<lparr>type = NOT, table = 0x7E3E3B70EA6BCA87A201C29630E1B1C3D08A0EBC5B89FAEA163E369EA8725657, in1 = 0, in2 = NO_GATE\<rparr>,
         9 := \<lparr>type = NOT, table = 0x81C1C48F159435785DFE3D69CF1E4E3C2F75F143A4760515E9C1C961578DA9A8, in1 = 8, in2 = NO_GATE\<rparr>],
      num_gates := 10\<rparr>)\<lparr>outputs := (replicate 8 NO_GATE)[0 := 9]\<rparr>),
        ((initial_state\<lparr>gates := (gates initial_state)
        [8 := \<lparr>type = NOT, table = 0x7E3E3B70EA6BCA87A201C29630E1B1C3D08A0EBC5B89FAEA163E369EA8725657, in1 = 0, in2 = NO_GATE\<rparr>],
      num_gates := 9\<rparr>)\<lparr>max_gates := 10\<rparr>)) \<and>
   num_gates ((initial_state\<lparr>gates := (gates initial_state)
        [8 := \<lparr>type = NOT, table = 0x7E3E3B70EA6BCA87A201C29630E1B1C3D08A0EBC5B89FAEA163E369EA8725657, in1 = 0, in2 = NO_GATE\<rparr>,
         9 := \<lparr>type = NOT, table = 0x81C1C48F159435785DFE3D69CF1E4E3C2F75F143A4760515E9C1C961578DA9A8, in1 = 8, in2 = NO_GATE\<rparr>],
      num_gates := 10\<rparr>)\<lparr>outputs := (replicate 8 NO_GATE)[0 := 9]\<rparr>) = 10 \<and>
   outputs ((initial_state\<lparr>gates := (gates initial_state)
        [8 := \<lparr>type = NOT, table = 0x7E3E3B70EA6BCA87A201C29630E1B1C3D08A0EBC5B89FAEA163E369EA8725657, in1 = 0, in2 = NO_GATE\<rparr>,
         9 := \<lparr>type = NOT, table = 0x81C1C48F159435785DFE3D69CF1E4E3C2F75F143A4760515E9C1C961578DA9A8, in1 = 8, in2 = NO_GATE\<rparr>],
      num_gates := 10\<rparr>)\<lparr>outputs := (replicate 8 NO_GATE)[0 := 9]\<rparr>) ! 0 = 9 \<and>
   num_gates ((initial_state\<lparr>gates := (gates initial_state)
        [8 := \<lparr>type = NOT, table = 0x7E3E3B70EA6BCA87A201C29630E1B1C3D08A0EBC5B89FAEA163E369EA8725657, in1 = 0, in2 = NO_GATE\<rparr>],
      num_gates := 9\<rparr>)\<lparr>max_gates := 10\<rparr>) = 9 \<and>
   outputs ((initial_state\<lparr>gates := (gates initial_state)
        [8 := \<lparr>type = NOT, table = 0x7E3E3B70EA6BCA87A201C29630E1B1C3D08A0EBC5B89FAEA163E369EA8725657, in1 = 0, in2 = NO_GATE\<rparr>],
      num_gates := 9\<rparr>)\<lparr>max_gates := 10\<rparr>) ! 0 = NO_GATE \<and>
   main_loop (map (\<lambda>b. target_table b True) [0..<8]) [0, 1]
     ((initial_state\<lparr>gates := (gates initial_state)
        [8 := \<lparr>type = NOT, table = 0x7E3E3B70EA6BCA87A201C29630E1B1C3D08A0EBC5B89FAEA163E369EA8725657, in1 = 0, in2 = NO_GATE\<rparr>],
      num_gates := 9\<rparr>)\<lparr>max_gates := MAX_GATES\<rparr>) =
   (case synth_output (map (\<lambda>b. target_table b True) [0..<8])
           ((initial_state\<lparr>gates := (gates initial_state)
        [8 := \<lparr>type = NOT, table = 0x7E3E3B70EA6BCA87A201C29630E1B1C3D08A0EBC5B89FAEA163E369EA8725657, in1 = 0, in2 = NO_GATE\<rparr>],
      num_gates := 9\<rparr>)\<lparr>max_gates := 10\<rparr>) 1 of
      Inl e \<Rightarrow> Inl e
    | Inr (saved, final) \<Rightarrow>
        Inr (((initial_state\<lparr>gates := (gates initial_state)
        [8 := \<lparr>type = NOT, table = 0x7E3E3B70EA6BCA87A201C29630E1B1C3D08A0EBC5B89FAEA163E369EA8725657, in1 = 0, in2 = NO_GATE\<rparr>,
         9 := \<lparr>type = NOT, table = 0x81C1C48F159435785DFE3D69CF1E4E3C2F75F143A4760515E9C1C961578DA9A8, in1 = 8, in2 = NO_GATE\<rparr>],
      num_gates := 10\<rparr>)\<lparr>outputs := (replicate 8 NO_GATE)[0 := 9]\<rparr>) #
             (case saved of None \<Rightarrow> [] | Some st \<Rightarrow> [st]), final))"
  using synth_output_loaded g_target_eq
  by (simp add: initial_state_def [THEN arg_cong, of outputs] split: sum.splits)

end
